theory Spec2Isabelle
  imports Complex_Main
begin

section \<open>Python strings and paths\<close>

text \<open>
  Strings are lists of characters, one \<^typ>\<open>char\<close> per code point below 256.
  The helpers below follow the Python built-ins the repository calls:
  \<^verbatim>\<open>str.split(sep)\<close>, \<^verbatim>\<open>str.split()\<close>, \<^verbatim>\<open>" ".join\<close>, \<^verbatim>\<open>str.startswith\<close>,
  \<^verbatim>\<open>str.lower\<close>, \<^verbatim>\<open>int(str)\<close>, \<^verbatim>\<open>re.findall(r'\d+', s)\<close> and the
  \<^verbatim>\<open>suffix\<close>/\<^verbatim>\<open>stem\<close> properties of \<^verbatim>\<open>pathlib.Path\<close>.
\<close>

datatype error =
  OSError | FileNotFoundError | NotADirectoryError | ValueError | IndexError
  | MediaError | WriteError | ExternalError

definition is_digit :: "char \<Rightarrow> bool" where
  "is_digit c = (c \<in> set ''0123456789'')"

definition is_space :: "char \<Rightarrow> bool" where
  "is_space c = (of_char c \<in> {9, 10, 11, 12, 13, 28, 29, 30, 31, 32, 133, 160 :: nat})"

definition startswith :: "string \<Rightarrow> string \<Rightarrow> bool" where
  "startswith s p = (take (length p) s = p)"

text \<open>\<^verbatim>\<open>s.split(sep)\<close> for a one-character separator: empty fields are kept.\<close>

fun split_on :: "char \<Rightarrow> string \<Rightarrow> string list" where
  "split_on sep [] = [[]]"
| "split_on sep (c # cs) =
     (if c = sep then [] # split_on sep cs
      else (case split_on sep cs of
              [] \<Rightarrow> [[c]]
            | w # ws \<Rightarrow> (c # w) # ws))"

text \<open>Indexing a list, raising \<^verbatim>\<open>IndexError\<close> out of range.\<close>

definition index_at :: "'a list \<Rightarrow> nat \<Rightarrow> error + 'a" where
  "index_at xs i = (if i < length xs then Inr (xs ! i) else Inl IndexError)"

text \<open>\<^verbatim>\<open>re.findall(r'\d+', s)\<close>: the maximal digit runs, left to right.\<close>

fun digit_runs :: "string \<Rightarrow> string \<Rightarrow> string list" where
  "digit_runs cur [] = (if cur = [] then [] else [cur])"
| "digit_runs cur (c # cs) =
     (if is_digit c then digit_runs (cur @ [c]) cs
      else if cur = [] then digit_runs [] cs
      else cur # digit_runs [] cs)"

definition findall_digits :: "string \<Rightarrow> string list" where
  "findall_digits s = digit_runs [] s"

text \<open>
  \<^verbatim>\<open>int(s)\<close> in base ten: surrounding whitespace is stripped, one sign is allowed,
  and the digits may be grouped by single underscores. Anything else raises
  \<^verbatim>\<open>ValueError\<close>. The whitespace \<^verbatim>\<open>int\<close> strips is narrower than the one
  \<^verbatim>\<open>str.split()\<close> separates at: the ASCII characters 9 to 13 and 32, and the two
  whitespace characters above 127, which \<^verbatim>\<open>int\<close> first turns into blanks; the
  separators 28 to 31 are left in place and make the conversion fail.
\<close>

definition is_int_space :: "char \<Rightarrow> bool" where
  "is_int_space c = (of_char c \<in> {9, 10, 11, 12, 13, 32, 133, 160 :: nat})"

definition strip :: "string \<Rightarrow> string" where
  "strip s = rev (dropWhile is_int_space (rev (dropWhile is_int_space s)))"

definition digit_val :: "char \<Rightarrow> int" where
  "digit_val c = int (of_char c) - 48"

definition digits_value :: "string \<Rightarrow> int" where
  "digits_value ds = foldl (\<lambda>a c. 10 * a + digit_val c) 0 ds"

fun grouped_digits :: "string \<Rightarrow> bool" where
  "grouped_digits [] = False"
| "grouped_digits [c] = is_digit c"
| "grouped_digits (c # d # cs) =
     (is_digit c \<and>
      (if d = CHR ''_'' then grouped_digits cs else grouped_digits (d # cs)))"

definition py_int :: "string \<Rightarrow> error + int" where
  "py_int s =
     (let t = strip s;
          neg = (t \<noteq> [] \<and> hd t = CHR ''-'');
          body = (if t \<noteq> [] \<and> (hd t = CHR ''-'' \<or> hd t = CHR ''+'') then tl t else t)
      in if grouped_digits body
         then Inr ((if neg then - 1 else 1) * digits_value (filter is_digit body))
         else Inl ValueError)"

text \<open>\<^verbatim>\<open>str.lower\<close> on the ASCII letters.\<close>

definition lower_char :: "char \<Rightarrow> char" where
  "lower_char c =
     (if 65 \<le> (of_char c :: nat) \<and> (of_char c :: nat) \<le> 90
      then char_of (of_char c + 32 :: nat) else c)"

definition lower :: "string \<Rightarrow> string" where
  "lower s = map lower_char s"

text \<open>\<^verbatim>\<open>name.rfind('.')\<close>, and the suffix and stem pathlib derives from it.\<close>

definition rfind :: "char \<Rightarrow> string \<Rightarrow> nat option" where
  "rfind c s =
     (if c \<in> set s
      then Some (length s - 1 - length (takeWhile (\<lambda>x. x \<noteq> c) (rev s)))
      else None)"

definition suffix :: "string \<Rightarrow> string" where
  "suffix name =
     (case rfind CHR ''.'' name of
        None \<Rightarrow> []
      | Some i \<Rightarrow> if 0 < i \<and> i < length name - 1 then drop i name else [])"

definition stem :: "string \<Rightarrow> string" where
  "stem name =
     (case rfind CHR ''.'' name of
        None \<Rightarrow> name
      | Some i \<Rightarrow> if 0 < i \<and> i < length name - 1 then take i name else name)"

section \<open>Segment store: \<^verbatim>\<open>get_files\<close>\<close>

text \<open>
  The sort key is a Python number: an \<^verbatim>\<open>int\<close>, or \<^verbatim>\<open>float('inf')\<close>, which
  compares above every \<^verbatim>\<open>int\<close> and equal to itself.
\<close>

datatype index = Num int | Infinity

instantiation index :: linorder
begin

fun less_eq_index :: "index \<Rightarrow> index \<Rightarrow> bool" where
  "less_eq_index (Num a) (Num b) = (a \<le> b)"
| "less_eq_index _ Infinity = True"
| "less_eq_index Infinity (Num _) = False"

definition less_index :: "index \<Rightarrow> index \<Rightarrow> bool" where
  "less_index a b = (a \<le> b \<and> \<not> b \<le> a)"

instance
proof
  fix x y z :: index
  show "(x < y) = (x \<le> y \<and> \<not> y \<le> x)"
    by (simp add: less_index_def)
  show "x \<le> x"
    by (cases x) simp_all
  show "x \<le> y \<Longrightarrow> y \<le> z \<Longrightarrow> x \<le> z"
    by (cases x; cases y; cases z) simp_all
  show "x \<le> y \<Longrightarrow> y \<le> x \<Longrightarrow> x = y"
    by (cases x; cases y) simp_all
  show "x \<le> y \<or> y \<le> x"
    by (cases x; cases y) auto
qed

end

text \<open>
  \<^verbatim>\<open>extract_number\<close>, the key function nested in \<^verbatim>\<open>get_files\<close>. The body of the
  \<^verbatim>\<open>try\<close> is \<open>number_part\<close> followed by \<^verbatim>\<open>int\<close>; the bare \<^verbatim>\<open>except\<close> turns every
  exception into \<^verbatim>\<open>float('inf')\<close>.
\<close>

definition number_part :: "string \<Rightarrow> error + string" where
  "number_part base =
     (if startswith base ''segment_'' then index_at (split_on CHR ''_'' base) 1
      else if startswith base ''scene_'' then
        (case index_at (split_on CHR ''_'' base) 1 of
           Inl e \<Rightarrow> Inl e
         | Inr p \<Rightarrow> index_at (split_on CHR ''-'' p) 0)
      else (case findall_digits base of
              [] \<Rightarrow> Inr ''0''
            | n # _ \<Rightarrow> Inr n))"

definition extract_number :: "string \<Rightarrow> index" where
  "extract_number filepath =
     (case number_part (stem filepath) of
        Inl _ \<Rightarrow> Infinity
      | Inr p \<Rightarrow> (case py_int p of Inl _ \<Rightarrow> Infinity | Inr n \<Rightarrow> Num n))"

text \<open>
  What a path names on disk: nothing, a regular file, or a directory with its entries
  in the order \<^verbatim>\<open>iterdir\<close> enumerates them. \<^verbatim>\<open>sorted\<close> is a stable sort by key,
  as \<^const>\<open>sort_key\<close> is. A listed file is represented by its name inside the folder.
\<close>

record dirent =
  name :: string
  is_file :: bool

datatype path_state = Absent | IsFile | IsDir "dirent list"

definition get_files :: "path_state \<Rightarrow> string list \<Rightarrow> error + string list" where
  "get_files folder extensions =
     (case folder of
        IsDir entries \<Rightarrow>
          Inr (sort_key extract_number
                 (map name
                    (filter (\<lambda>file. is_file file \<and> lower (suffix (name file)) \<in> set extensions)
                       entries)))
      | _ \<Rightarrow> Inl OSError)"

definition regular :: "string \<Rightarrow> dirent" where
  "regular n = \<lparr>name = n, is_file = True\<rparr>"


section \<open>Script file\<close>

text \<open>
  The script is a JSON object with the keys \<^verbatim>\<open>topic\<close>, \<^verbatim>\<open>audio_script\<close> and
  \<^verbatim>\<open>visual_script\<close>, each of which may be missing. Of a narration item only the key
  \<^verbatim>\<open>text\<close> is read, of a scene the keys \<^verbatim>\<open>prompt\<close> and \<^verbatim>\<open>timestamp_start\<close>. The
  file itself may be missing or hold invalid JSON.
\<close>

record narration =
  narration_text :: "string option"

record scene =
  prompt :: "string option"
  timestamp_start :: "string option"

record script =
  topic :: "string option"
  audio_script :: "narration list option"
  visual_script :: "scene list option"

datatype script_file = NoFile | InvalidJson | Script script

definition extract_topic_from_json :: "script_file \<Rightarrow> string" where
  "extract_topic_from_json file_path =
     (case file_path of
        Script data \<Rightarrow> (case topic data of None \<Rightarrow> ''No topic found'' | Some t \<Rightarrow> t)
      | _ \<Rightarrow> ''Unknown Topic'')"

definition extract_audio_from_json :: "script_file \<Rightarrow> narration list" where
  "extract_audio_from_json file_path =
     (case file_path of
        Script data \<Rightarrow> (case audio_script data of None \<Rightarrow> [] | Some a \<Rightarrow> a)
      | _ \<Rightarrow> [])"

definition json_extract :: "script_file \<Rightarrow> string list" where
  "json_extract json_path =
     (let audio_script = extract_audio_from_json json_path
      in if audio_script \<noteq> []
         then concat (map (\<lambda>item. case narration_text item of None \<Rightarrow> [] | Some t \<Rightarrow> [t]) audio_script)
         else [])"

section \<open>Words, slices and ranges\<close>

text \<open>\<^verbatim>\<open>s.split()\<close>: the maximal runs of non-whitespace characters.\<close>

fun words_from :: "string \<Rightarrow> string \<Rightarrow> string list" where
  "words_from cur [] = (if cur = [] then [] else [cur])"
| "words_from cur (c # cs) =
     (if is_space c then (if cur = [] then words_from [] cs else cur # words_from [] cs)
      else words_from (cur @ [c]) cs)"

definition split_ws :: "string \<Rightarrow> string list" where
  "split_ws s = words_from [] s"

text \<open>\<^verbatim>\<open>sep.join(ws)\<close>.\<close>

fun join :: "string \<Rightarrow> string list \<Rightarrow> string" where
  "join sep [] = []"
| "join sep [w] = w"
| "join sep (w # v # ws) = w @ sep @ join sep (v # ws)"

text \<open>\<^verbatim>\<open>xs[i:j]\<close> for indices that are not negative.\<close>

definition slice :: "'a list \<Rightarrow> nat \<Rightarrow> nat \<Rightarrow> 'a list" where
  "slice xs i j = take (j - i) (drop i xs)"

text \<open>
  \<^verbatim>\<open>range(0, n, step)\<close>: a zero step raises \<^verbatim>\<open>ValueError\<close>, a negative step gives
  the empty range (\<open>n\<close> is a length, so it is not negative).
\<close>

definition range_step :: "nat \<Rightarrow> nat \<Rightarrow> nat list" where
  "range_step n step = map (\<lambda>k. k * step) [0..<(n + step - 1) div step]"

definition py_range :: "nat \<Rightarrow> int \<Rightarrow> error + nat list" where
  "py_range n step =
     (if step = 0 then Inl ValueError
      else if step < 0 then Inr []
      else Inr (range_step n (nat step)))"

section \<open>The environment of the assembly functions\<close>

text \<open>
  Everything \<^verbatim>\<open>create_video\<close> and \<^verbatim>\<open>create_complete_srt\<close> read from outside: the state of
  the paths they are given, whether the output directories can be created, what
  \<^verbatim>\<open>AudioFileClip(path).duration\<close> and \<^verbatim>\<open>ImageClip(path)\<close> give for each file, for which
  texts a title card and a caption can be rendered, and whether the final write
  succeeds. Python's floats are taken as real numbers.
\<close>

datatype image_path = FolderImage string | PlaceholderImage

record world =
  image_folder :: "path_state option"
  audio_folder :: path_state
  script_path :: script_file
  font_is_file :: bool
  intro_image_is_file :: bool
  video_parent_mkdir :: bool
  srt_parent_mkdir :: bool
  audio_duration :: "string \<Rightarrow> real option"
  image_loads :: "image_path \<Rightarrow> bool"
  intro_clip_ok :: "string \<Rightarrow> bool"
  text_clip_ok :: "string \<Rightarrow> bool"
  write_videofile_ok :: bool
  srt_save_ok :: bool

text \<open>\<^verbatim>\<open>[AudioFileClip(str(x)) for x in audio_files]\<close>, read for the durations.\<close>

fun audio_clips :: "(string \<Rightarrow> real option) \<Rightarrow> string list \<Rightarrow> error + real list" where
  "audio_clips probe [] = Inr []"
| "audio_clips probe (x # xs) =
     (case probe x of
        None \<Rightarrow> Inl MediaError
      | Some d \<Rightarrow> (case audio_clips probe xs of Inl e \<Rightarrow> Inl e | Inr ds \<Rightarrow> Inr (d # ds)))"

section \<open>Subtitle file: \<^verbatim>\<open>create_complete_srt\<close>\<close>

record cue =
  cue_index :: nat
  cue_start :: real
  cue_end :: real
  cue_text :: string

record srt_state =
  start_time :: real
  next_index :: nat
  subs :: "cue list"

text \<open>
  The body of the inner loop, for the chunk that starts at word \<open>i\<close>. It runs only when
  \<open>chunk_size\<close> is positive and the segment has more words than that, so the division
  is never by zero.
\<close>

definition srt_chunk_step :: "string list \<Rightarrow> int \<Rightarrow> real \<Rightarrow> srt_state \<Rightarrow> nat \<Rightarrow> srt_state" where
  "srt_chunk_step words chunk_size duration st i =
     (let chunk = join '' '' (slice words i (min (i + nat chunk_size) (length words)));
          chunk_duration = duration * (real (length (split_ws chunk)) / real (length words));
          end_time = start_time st + chunk_duration
      in \<lparr>start_time = end_time, next_index = next_index st + 1,
          subs = subs st @ [\<lparr>cue_index = next_index st, cue_start = start_time st,
                             cue_end = end_time, cue_text = chunk\<rparr>]\<rparr>)"

text \<open>The body of the outer loop, for one narration text and its audio duration.\<close>

definition srt_segment_step :: "int \<Rightarrow> srt_state \<Rightarrow> string \<times> real \<Rightarrow> error + srt_state" where
  "srt_segment_step chunk_size st p =
     (let txt = fst p; duration = snd p; words = split_ws txt
      in if int (length words) > chunk_size
         then (case py_range (length words) chunk_size of
                 Inl e \<Rightarrow> Inl e
               | Inr starts \<Rightarrow> Inr (foldl (srt_chunk_step words chunk_size duration) st starts))
         else (let end_time = start_time st + duration
               in Inr \<lparr>start_time = end_time, next_index = next_index st + 1,
                       subs = subs st @ [\<lparr>cue_index = next_index st, cue_start = start_time st,
                                          cue_end = end_time, cue_text = txt\<rparr>]\<rparr>))"

fun srt_loop :: "int \<Rightarrow> srt_state \<Rightarrow> (string \<times> real) list \<Rightarrow> error + srt_state" where
  "srt_loop chunk_size st [] = Inr st"
| "srt_loop chunk_size st (p # ps) =
     (case srt_segment_step chunk_size st p of
        Inl e \<Rightarrow> Inl e
      | Inr st' \<Rightarrow> srt_loop chunk_size st' ps)"

definition srt_init :: srt_state where
  "srt_init = \<lparr>start_time = 5, next_index = 1, subs = []\<rparr>"

text \<open>The \<^verbatim>\<open>try\<close> block: the cues saved, or the exception raised inside it.\<close>

definition srt_try :: "world \<Rightarrow> int \<Rightarrow> error + cue list" where
  "srt_try w chunk_size =
     (let script = json_extract (script_path w)
      in case get_files (audio_folder w) [''.wav'', ''.mp3''] of
           Inl e \<Rightarrow> Inl e
         | Inr audio_files \<Rightarrow>
             (case audio_clips (audio_duration w) audio_files of
                Inl e \<Rightarrow> Inl e
              | Inr durations \<Rightarrow>
                  (case srt_loop chunk_size srt_init (zip script durations) of
                     Inl e \<Rightarrow> Inl e
                   | Inr st \<Rightarrow> if srt_save_ok w then Inr (subs st) else Inl WriteError)))"

text \<open>
  The call returns a boolean and may have saved a subtitle file, or it raises.
  Creating the parent directory of the output file comes before the \<^verbatim>\<open>try\<close>.
\<close>

record srt_outcome =
  returned :: bool
  saved :: "cue list option"

definition create_complete_srt :: "world \<Rightarrow> int \<Rightarrow> error + srt_outcome" where
  "create_complete_srt w chunk_size =
     (if \<not> srt_parent_mkdir w then Inl OSError
      else (case srt_try w chunk_size of
              Inl e \<Rightarrow> Inr \<lparr>returned = False, saved = None\<rparr>
            | Inr cues \<Rightarrow> Inr \<lparr>returned = True, saved = Some cues\<rparr>))"

section \<open>Video assembly: \<^verbatim>\<open>create_video\<close>\<close>

text \<open>
  A clip is a title card (text and duration) or a still image shown with an audio file
  for that file's duration. \<^verbatim>\<open>add_effects\<close> fades a clip in and out and leaves its
  duration as it is.
\<close>

datatype clip = TitleCard string real | Still image_path string real

fun clip_duration :: "clip \<Rightarrow> real" where
  "clip_duration (TitleCard _ d) = d"
| "clip_duration (Still _ _ d) = d"

text \<open>
  \<^verbatim>\<open>create_intro_clip\<close> builds the card over the background image or, when that raises,
  over a plain colour; the card has the duration asked for either way. The call raises
  when the second attempt raises too.
\<close>

definition create_intro_clip :: "world \<Rightarrow> real \<Rightarrow> string \<Rightarrow> error + clip" where
  "create_intro_clip w duration title =
     (if intro_clip_ok w title then Inr (TitleCard title duration) else Inl MediaError)"

text \<open>
  \<^verbatim>\<open>concatenate_videoclips\<close> of moviepy plays the clips one after the other: each clip
  is placed at the time the one before it ends.
\<close>

record placed =
  clip_start :: real
  clip_end :: real
  shown :: clip

fun place_from :: "real \<Rightarrow> clip list \<Rightarrow> placed list" where
  "place_from t [] = []"
| "place_from t (c # cs) =
     \<lparr>clip_start = t, clip_end = t + clip_duration c, shown = c\<rparr>
       # place_from (t + clip_duration c) cs"

definition concatenate_videoclips :: "clip list \<Rightarrow> placed list" where
  "concatenate_videoclips clips = place_from 0 clips"

definition timeline_duration :: "placed list \<Rightarrow> real" where
  "timeline_duration ps = (if ps = [] then 0 else clip_end (last ps))"

text \<open>\<^verbatim>\<open>create_placeholder_image\<close> returns the same path whether or not it could save the image.\<close>

definition create_placeholder_image :: image_path where
  "create_placeholder_image = PlaceholderImage"

text \<open>The images of the video: the placeholder for every audio file, or the listed folder.\<close>

definition choose_images :: "world \<Rightarrow> string list \<Rightarrow> error + image_path list" where
  "choose_images w audio_files =
     (case image_folder w of
        None \<Rightarrow> Inr (replicate (length audio_files) create_placeholder_image)
      | Some Absent \<Rightarrow> Inr (replicate (length audio_files) create_placeholder_image)
      | Some IsFile \<Rightarrow> Inl NotADirectoryError
      | Some (IsDir entries) \<Rightarrow>
          if entries = [] then Inr (replicate (length audio_files) create_placeholder_image)
          else (case get_files (IsDir entries) [''.jpg'', ''.png'', ''.jpeg''] of
                  Inl e \<Rightarrow> Inl e
                | Inr images \<Rightarrow> Inr (map FolderImage images)))"

text \<open>
  The loop over \<^verbatim>\<open>zip(images, audio_files)\<close>; the state is \<open>raw_clips\<close> and
  \<open>audio_durations\<close>.
\<close>

fun clip_loop :: "world \<Rightarrow> clip list \<times> real list \<Rightarrow> (image_path \<times> string) list
    \<Rightarrow> error + clip list \<times> real list" where
  "clip_loop w st [] = Inr st"
| "clip_loop w st ((img, audio) # ps) =
     (case audio_duration w audio of
        None \<Rightarrow> Inl MediaError
      | Some d \<Rightarrow>
          if \<not> image_loads w img then Inl MediaError
          else clip_loop w (fst st @ [Still img audio d], snd st @ [d]) ps)"

text \<open>The captions burned into the video, with the chunk size fixed at ten words.\<close>

record caption =
  cap_text :: string
  cap_start :: real
  cap_duration :: real

record caption_state =
  Start_duration :: real
  subtitle_clips :: "caption list"

definition video_chunk_size :: nat where
  "video_chunk_size = 10"

definition video_chunk_step :: "string list \<Rightarrow> real \<Rightarrow> caption_state \<Rightarrow> nat \<Rightarrow> caption_state" where
  "video_chunk_step words duration st i =
     (let chunk = join '' '' (slice words i (i + video_chunk_size));
          chunk_duration = duration * (real (length (split_ws chunk)) / real (length words))
      in \<lparr>Start_duration = Start_duration st + chunk_duration,
          subtitle_clips = subtitle_clips st @
            [\<lparr>cap_text = chunk, cap_start = Start_duration st, cap_duration = chunk_duration\<rparr>]\<rparr>)"

definition video_segment_step :: "caption_state \<Rightarrow> string \<times> real \<Rightarrow> caption_state" where
  "video_segment_step st p =
     (let txt = fst p; duration = snd p; words = split_ws txt
      in if length words > video_chunk_size
         then foldl (video_chunk_step words duration) st
                (range_step (length words) video_chunk_size)
         else \<lparr>Start_duration = Start_duration st + duration,
               subtitle_clips = subtitle_clips st @
                 [\<lparr>cap_text = txt, cap_start = Start_duration st, cap_duration = duration\<rparr>]\<rparr>)"

definition caption_init :: caption_state where
  "caption_init = \<lparr>Start_duration = 5, subtitle_clips = []\<rparr>"

definition video_captions :: "string list \<Rightarrow> real list \<Rightarrow> caption list" where
  "video_captions subtitles audio_durations =
     subtitle_clips (foldl video_segment_step caption_init (zip subtitles audio_durations))"

text \<open>Every caption is rendered by a \<^verbatim>\<open>TextClip\<close>, which raises when it cannot.\<close>

definition render_captions :: "world \<Rightarrow> caption list \<Rightarrow> error + caption list" where
  "render_captions w caps =
     (if list_all (\<lambda>c. text_clip_ok w (cap_text c)) caps then Inr caps else Inl MediaError)"

record video =
  timeline :: "placed list"
  captions :: "caption list"

definition create_video :: "world \<Rightarrow> bool \<Rightarrow> error + video" where
  "create_video w with_subtitles =
     (if \<not> (case audio_folder w of IsDir _ \<Rightarrow> True | _ \<Rightarrow> False) then Inl FileNotFoundError
      else if script_path w = NoFile then Inl FileNotFoundError
      else if \<not> font_is_file w then Inl FileNotFoundError
      else if \<not> intro_image_is_file w then Inl FileNotFoundError
      else if \<not> video_parent_mkdir w then Inl OSError
      else (case get_files (audio_folder w) [''.mp3'', ''.wav''] of
          Inl e \<Rightarrow> Inl e
        | Inr audio_files \<Rightarrow>
      (case choose_images w audio_files of
          Inl e \<Rightarrow> Inl e
        | Inr images \<Rightarrow>
      (let subtitles = json_extract (script_path w);
           title = extract_topic_from_json (script_path w)
       in case create_intro_clip w 5 title of
            Inl e \<Rightarrow> Inl e
          | Inr intro_clip \<Rightarrow>
      (case clip_loop w ([intro_clip], []) (zip images audio_files) of
            Inl e \<Rightarrow> Inl e
          | Inr (clips, audio_durations) \<Rightarrow>
      (case create_intro_clip w 5 ''MADE BY TEAM FRAGMENT'' of
            Inl e \<Rightarrow> Inl e
          | Inr outro_clip \<Rightarrow>
      (let raw_clips = clips @ [outro_clip];
           video = concatenate_videoclips raw_clips
       in case (if with_subtitles
                then render_captions w (video_captions subtitles audio_durations)
                else Inr []) of
            Inl e \<Rightarrow> Inl e
          | Inr caps \<Rightarrow>
              if write_videofile_ok w then Inr \<lparr>timeline = video, captions = caps\<rparr>
              else Inl WriteError)))))))"

section \<open>Image generation: \<^verbatim>\<open>main_generate_images\<close>\<close>



text \<open>Decimal digits of a number, and \<^verbatim>\<open>f"{idx:03d}"\<close>.\<close>

fun string_of_nat :: "nat \<Rightarrow> string" where
  "string_of_nat k =
     (if k < 10 then [char_of (48 + k)]
      else string_of_nat (k div 10) @ [char_of (48 + k mod 10)])"








section \<open>Orchestration: \<^verbatim>\<open>_generate_video_task\<close>\<close>

text \<open>
  The task calls the stages in order inside one \<^verbatim>\<open>try\<close>; an exception of a stage is
  logged and raised again, and the value a stage returns is not read. A stage is given
  by what its call does: it raises, or it returns a value.
\<close>

datatype stage = CLEANING | SCRIPTING | IMAGING | NARRATING | TIMING | ASSEMBLING | PUBLISHING

datatype task_outcome = Failed stage error | Completed

record stages =
  clean_stage :: "error + unit"
  script_stage :: "error + unit"
  images_stage :: "error + bool"
  audio_stage :: "error + unit"
  srt_stage :: "error + bool"
  video_stage :: "error + bool"
  copy_stage :: "error + unit"

definition generate_video_task :: "stages \<Rightarrow> task_outcome" where
  "generate_video_task s =
     (case clean_stage s of Inl e \<Rightarrow> Failed CLEANING e | Inr _ \<Rightarrow>
      (case script_stage s of Inl e \<Rightarrow> Failed SCRIPTING e | Inr _ \<Rightarrow>
      (case images_stage s of Inl e \<Rightarrow> Failed IMAGING e | Inr _ \<Rightarrow>
      (case audio_stage s of Inl e \<Rightarrow> Failed NARRATING e | Inr _ \<Rightarrow>
      (case srt_stage s of Inl e \<Rightarrow> Failed TIMING e | Inr _ \<Rightarrow>
      (case video_stage s of Inl e \<Rightarrow> Failed ASSEMBLING e | Inr _ \<Rightarrow>
      (case copy_stage s of Inl e \<Rightarrow> Failed PUBLISHING e | Inr _ \<Rightarrow> Completed)))))))"


definition srt_call :: "world \<Rightarrow> int \<Rightarrow> error + bool" where
  "srt_call w chunk_size =
     (case create_complete_srt w chunk_size of Inl e \<Rightarrow> Inl e | Inr r \<Rightarrow> Inr (returned r))"

section \<open>Settings and the paths a job works on\<close>

text \<open>
  A path is the list of its components. \<^verbatim>\<open>Settings.__init__\<close> takes the base
  directory and the directories set from outside, and fills every directory that is
  not set from the ones before it.
\<close>

type_synonym path = "string list"

record settings_fields =
  BASE_DIR_field :: path
  STATIC_DIR_field :: "path option"
  RESOURCE_DIR_field :: "path option"
  SCRIPT_DIR_field :: "path option"
  IMAGES_DIR_field :: "path option"
  AUDIO_DIR_field :: "path option"
  VIDEO_OUTPUT_DIR_field :: "path option"
  SUBTITLE_OUTPUT_DIR_field :: "path option"

record settings =
  BASE_DIR :: path
  STATIC_DIR :: path
  RESOURCE_DIR :: path
  SCRIPT_DIR :: path
  IMAGES_DIR :: path
  AUDIO_DIR :: path
  VIDEO_OUTPUT_DIR :: path
  SUBTITLE_OUTPUT_DIR :: path

definition or_default :: "path option \<Rightarrow> path \<Rightarrow> path" where
  "or_default p d = (case p of None \<Rightarrow> d | Some q \<Rightarrow> q)"

definition Settings_init :: "settings_fields \<Rightarrow> settings" where
  "Settings_init f =
     (let base = BASE_DIR_field f;
          static = or_default (STATIC_DIR_field f) (base @ [''static'']);
          resource = or_default (RESOURCE_DIR_field f) (base @ [''resources''])
      in \<lparr>BASE_DIR = base,
          STATIC_DIR = static,
          RESOURCE_DIR = resource,
          SCRIPT_DIR = or_default (SCRIPT_DIR_field f) (resource @ [''scripts'']),
          IMAGES_DIR = or_default (IMAGES_DIR_field f) (resource @ [''images'']),
          AUDIO_DIR = or_default (AUDIO_DIR_field f) (resource @ [''audio'']),
          VIDEO_OUTPUT_DIR = or_default (VIDEO_OUTPUT_DIR_field f) (resource @ [''video'']),
          SUBTITLE_OUTPUT_DIR =
            or_default (SUBTITLE_OUTPUT_DIR_field f) (resource @ [''subtitles''])\<rparr>)"

record request =
  req_topic :: string
  req_duration :: int
  key_points :: "string list"
  style :: string

text \<open>\<^verbatim>\<open>re.sub(r"[^A-Za-z0-9]", "_", topic)[:30]\<close>.\<close>

definition is_alnum :: "char \<Rightarrow> bool" where
  "is_alnum c =
     (c \<in> set ''ABCDEFGHIJKLMNOPQRSTUVWXYZabcdefghijklmnopqrstuvwxyz0123456789'')"

definition clean_topic :: "string \<Rightarrow> string" where
  "clean_topic t = take 30 (map (\<lambda>c. if is_alnum c then c else CHR ''_'') t)"

definition generate_video_filename :: "string \<Rightarrow> nat \<Rightarrow> string" where
  "generate_video_filename t timestamp = clean_topic t @ ''_'' @ string_of_nat timestamp @ ''.mp4''"

text \<open>
  The paths \<^verbatim>\<open>_generate_video_task\<close> works on for a request and its video file name:
  the directories it cleans and fills, the script file, the subtitle file, the video it
  assembles and the copy it publishes.
\<close>

record job_paths =
  images_dir :: path
  audio_dir :: path
  script_json :: path
  srt_path :: path
  temp_video_path :: path
  final_video_path :: path

definition task_paths :: "settings \<Rightarrow> request \<Rightarrow> string \<Rightarrow> job_paths" where
  "task_paths st r video_filename =
     \<lparr>images_dir = IMAGES_DIR st,
      audio_dir = AUDIO_DIR st,
      script_json = SCRIPT_DIR st @ [''script.json''],
      srt_path = SUBTITLE_OUTPUT_DIR st @ [clean_topic (req_topic r) @ ''.srt''],
      temp_video_path = VIDEO_OUTPUT_DIR st @ [video_filename],
      final_video_path = STATIC_DIR st @ [''videos'', video_filename]\<rparr>"

section \<open>Properties of the segment store\<close>

lemmas path_simps =
  get_files_def regular_def extract_number_def number_part_def stem_def suffix_def
  rfind_def startswith_def index_at_def py_int_def strip_def is_int_space_def is_digit_def
  digits_value_def digit_val_def lower_def lower_char_def findall_digits_def

lemma get_files_sorted:
  "get_files folder exts = Inr fs \<Longrightarrow> sorted (map extract_number fs)"
  by (auto simp: get_files_def split: path_state.splits)

lemma get_files_stable:
  "get_files (IsDir es) exts = Inr fs \<Longrightarrow>
   filter (\<lambda>f. extract_number f = k) fs =
   filter (\<lambda>f. extract_number f = k)
     (map name (filter (\<lambda>e. is_file e \<and> lower (suffix (name e)) \<in> set exts) es))"
  by (auto simp: get_files_def sort_key_stable)

lemma get_files_numeric_order:
  "get_files (IsDir [regular ''segment_10.wav'', regular ''segment_2.wav'']) [''.mp3'', ''.wav'']
     = Inr [''segment_2.wav'', ''segment_10.wav'']"
  by (simp add: path_simps)

text \<open>
  Claim C1. The listing is sorted by the index embedded in each name, and names without
  any digit are to sort last. The code gives a name without digits that starts with
  neither \<^verbatim>\<open>segment_\<close> nor \<^verbatim>\<open>scene_\<close> the number part \<^verbatim>\<open>'0'\<close>, hence index 0:
  in a folder holding \<^verbatim>\<open>segment_1.mp3\<close> and \<^verbatim>\<open>intro.mp3\<close>, in either enumeration order,
  \<^verbatim>\<open>intro.mp3\<close> is listed first, not last.
\<close>

theorem get_files_no_digits_first:
  "extract_number ''intro.mp3'' = Num 0 \<and>
   get_files (IsDir [regular ''segment_1.mp3'', regular ''intro.mp3'']) [''.mp3'', ''.wav'']
     = Inr [''intro.mp3'', ''segment_1.mp3''] \<and>
   get_files (IsDir [regular ''intro.mp3'', regular ''segment_1.mp3'']) [''.mp3'', ''.wav'']
     = Inr [''intro.mp3'', ''segment_1.mp3'']"
  by (simp add: path_simps)


section \<open>Words and chunks\<close>

lemma is_space_blank: "is_space CHR '' ''"
  by (simp add: is_space_def)

lemma words_from_nospace:
  "\<forall>c\<in>set w. \<not> is_space c \<Longrightarrow> words_from cur (w @ rest) = words_from (cur @ w) rest"
  by (induction w arbitrary: cur) auto

lemma words_from_elems:
  "(\<forall>c\<in>set cur. \<not> is_space c) \<longrightarrow>
     (\<forall>w\<in>set (words_from cur s). w \<noteq> [] \<and> (\<forall>c\<in>set w. \<not> is_space c))"
proof (induction s arbitrary: cur)
  case Nil
  show ?case by simp
next
  case (Cons a s)
  have e: "\<forall>w\<in>set (words_from [] s). w \<noteq> [] \<and> (\<forall>c\<in>set w. \<not> is_space c)"
    using Cons [of "[]"] by simp
  show ?case
  proof (intro impI ballI)
    fix w
    assume c: "\<forall>c\<in>set cur. \<not> is_space c" and w: "w \<in> set (words_from cur (a # s))"
    show "w \<noteq> [] \<and> (\<forall>c\<in>set w. \<not> is_space c)"
    proof (cases "is_space a")
      case True
      with w have "(w = cur \<and> cur \<noteq> []) \<or> w \<in> set (words_from [] s)"
        by (simp split: if_splits)
      then show ?thesis using c e by blast
    next
      case False
      with c have "\<forall>c\<in>set (cur @ [a]). \<not> is_space c" by simp
      moreover from w False have "w \<in> set (words_from (cur @ [a]) s)" by simp
      ultimately show ?thesis using Cons [of "cur @ [a]"] by blast
    qed
  qed
qed

lemma split_ws_elems:
  "w \<in> set (split_ws s) \<Longrightarrow> w \<noteq> [] \<and> (\<forall>c\<in>set w. \<not> is_space c)"
  unfolding split_ws_def using words_from_elems [of "[]" s] by simp

lemma split_ws_join:
  "\<forall>w\<in>set ws. w \<noteq> [] \<and> (\<forall>c\<in>set w. \<not> is_space c) \<Longrightarrow> split_ws (join '' '' ws) = ws"
proof (induction "'' ''" ws rule: join.induct)
  case 1
  then show ?case by (simp add: split_ws_def)
next
  case (2 w)
  then show ?case
    using words_from_nospace [of w "[]" "[]"] by (simp add: split_ws_def)
next
  case (3 w v ws)
  have "split_ws (join '' '' (w # v # ws)) = words_from [] (w @ CHR '' '' # join '' '' (v # ws))"
    by (simp add: split_ws_def)
  also have "\<dots> = words_from w (CHR '' '' # join '' '' (v # ws))"
    using 3 words_from_nospace [of w "[]"] by simp
  also have "\<dots> = w # split_ws (join '' '' (v # ws))"
    using 3 by (simp add: is_space_blank split_ws_def)
  finally show ?case using 3 by simp
qed

lemma length_split_ws_chunk:
  "length (split_ws (join '' '' (slice (split_ws s) i j))) = length (slice (split_ws s) i j)"
proof -
  have "set (slice (split_ws s) i j) \<subseteq> set (split_ws s)"
    unfolding slice_def using set_take_subset set_drop_subset by fast
  then have "\<forall>w\<in>set (slice (split_ws s) i j). w \<noteq> [] \<and> (\<forall>c\<in>set w. \<not> is_space c)"
    using split_ws_elems [of _ s] by blast
  then show ?thesis by (simp add: split_ws_join)
qed

lemma slice_min: "slice xs i (min j (length xs)) = slice xs i j"
  by (simp add: slice_def min_def)

lemma concat_slices:
  "concat (map (\<lambda>i. slice xs i (i + step)) (map (\<lambda>k. k * step) [0..<m])) = take (m * step) xs"
proof (induction m)
  case 0
  then show ?case by simp
next
  case (Suc m)
  have "take (Suc m * step) xs = take (m * step) xs @ take step (drop (m * step) xs)"
    using take_add [of "m * step" step xs] by (simp add: add.commute)
  with Suc show ?case
    by (simp add: slice_def)
qed

lemma ceil_cover: "0 < step \<Longrightarrow> n \<le> ((n + step - 1) div step) * (step::nat)"
proof -
  assume s: "0 < step"
  have "(n + step - 1) div step * step + (n + step - 1) mod step = n + step - 1"
    by (rule div_mult_mod_eq)
  moreover have "(n + step - 1) mod step < step"
    using s by simp
  ultimately show ?thesis by linarith
qed

lemma ceil_full: "0 < step \<Longrightarrow> Suc k < (n + step - 1) div step \<Longrightarrow> k * step + step \<le> (n::nat)"
proof -
  assume s: "0 < step" and k: "Suc k < (n + step - 1) div step"
  have "Suc (Suc k) * step \<le> (n + step - 1) div step * step"
    using k by (intro mult_le_mono1) simp
  also have "\<dots> \<le> n + step - 1"
    by (rule div_times_less_eq_dividend)
  finally show ?thesis using s by simp
qed

lemma ceil_last: "0 < step \<Longrightarrow> k < (n + step - 1) div step \<Longrightarrow> k * step < (n::nat)"
proof -
  assume s: "0 < step" and k: "k < (n + step - 1) div step"
  have "Suc k * step \<le> (n + step - 1) div step * step"
    using k by (intro mult_le_mono1) simp
  also have "\<dots> \<le> n + step - 1"
    by (rule div_times_less_eq_dividend)
  finally show ?thesis using s by simp
qed

lemma length_range_step: "length (range_step m step) = (m + step - 1) div step"
  by (simp add: range_step_def)

lemma range_step_bound: "0 < step \<Longrightarrow> i \<in> set (range_step m step) \<Longrightarrow> i < m"
  by (auto simp: range_step_def ceil_last)

lemma concat_chunks:
  assumes "0 < step"
  shows "concat (map (\<lambda>i. slice xs i (i + step)) (range_step (length xs) step)) = xs"
  using assms concat_slices [of xs step "(length xs + step - 1) div step"]
    ceil_cover [of step "length xs"]
  by (simp add: range_step_def)

lemma chunk_length_le: "length (slice xs i (i + step)) \<le> step"
  by (simp add: slice_def)

lemma chunk_nonempty: "0 < step \<Longrightarrow> i \<in> set (range_step (length xs) step) \<Longrightarrow> slice xs i (i + step) \<noteq> []"
  using range_step_bound [of step i "length xs"] by (simp add: slice_def)

lemma chunk_full:
  "0 < step \<Longrightarrow> i \<in> set (butlast (range_step (length xs) step)) \<Longrightarrow>
   length (slice xs i (i + step)) = step"
proof -
  assume s: "0 < step" and i: "i \<in> set (butlast (range_step (length xs) step))"
  let ?m = "(length xs + step - 1) div step"
  have "butlast (range_step (length xs) step) = map (\<lambda>k. k * step) [0..<?m - 1]"
    by (simp add: range_step_def butlast_conv_take take_map)
  with i have "i \<in> (\<lambda>k. k * step) ` {0..<?m - 1}" by simp
  then show ?thesis
  proof (elim imageE)
    fix k assume k: "i = k * step" "k \<in> {0..<?m - 1}"
    then have "k * step + step \<le> length xs"
      using ceil_full [of step k "length xs"] s by simp
    with k show ?thesis by (simp add: slice_def)
  qed
qed

section \<open>Orchestration and the paths of a job\<close>

lemma generate_video_task_ignores_srt:
  "generate_video_task (s\<lparr>srt_stage := Inr b\<rparr>) = generate_video_task (s\<lparr>srt_stage := Inr True\<rparr>)"
  by (cases "clean_stage s"; cases "script_stage s"; cases "images_stage s";
      cases "audio_stage s"; cases "video_stage s"; cases "copy_stage s";
      simp add: generate_video_task_def)


text \<open>
  Claim C9, as the code has it. The task takes the image directory, the audio directory
  and the script file from the one settings object, whatever the request and the video
  file name are: any two jobs work on the same three paths. The subtitle file depends
  on the job through its cleaned topic alone, so two jobs write the same subtitle file
  exactly when their cleaned topics are equal. The assembled video and its published
  copy depend on the job through the video file name alone, so two jobs write the same
  video files exactly when their video file names are equal.
\<close>

theorem task_paths_shared:
  "images_dir (task_paths st r1 v1) = images_dir (task_paths st r2 v2) \<and>
   audio_dir (task_paths st r1 v1) = audio_dir (task_paths st r2 v2) \<and>
   script_json (task_paths st r1 v1) = script_json (task_paths st r2 v2) \<and>
   (srt_path (task_paths st r1 v1) = srt_path (task_paths st r2 v2)) =
     (clean_topic (req_topic r1) = clean_topic (req_topic r2)) \<and>
   (temp_video_path (task_paths st r1 v1) = temp_video_path (task_paths st r2 v2)) =
     (v1 = v2) \<and>
   (final_video_path (task_paths st r1 v1) = final_video_path (task_paths st r2 v2)) =
     (v1 = v2)"
  by (simp add: task_paths_def)

text \<open>
  Claim C9 as stated fails: a job on the topic \<^verbatim>\<open>cats\<close> and a later job on the topic
  \<^verbatim>\<open>dogs\<close>, under the default settings, use the same image directory
  \<^verbatim>\<open>resources/images\<close>.
\<close>

theorem task_paths_shared_counterexample:
  "\<lparr>req_topic = ''cats'', req_duration = 60, key_points = [], style = ''educational''\<rparr>
     \<noteq> \<lparr>req_topic = ''dogs'', req_duration = 60, key_points = [], style = ''educational''\<rparr> \<and>
   images_dir (task_paths
       (Settings_init \<lparr>BASE_DIR_field = [''app''], STATIC_DIR_field = None,
          RESOURCE_DIR_field = None, SCRIPT_DIR_field = None, IMAGES_DIR_field = None,
          AUDIO_DIR_field = None, VIDEO_OUTPUT_DIR_field = None,
          SUBTITLE_OUTPUT_DIR_field = None\<rparr>)
       \<lparr>req_topic = ''cats'', req_duration = 60, key_points = [], style = ''educational''\<rparr>
       (generate_video_filename ''cats'' 1700000000))
   = images_dir (task_paths
       (Settings_init \<lparr>BASE_DIR_field = [''app''], STATIC_DIR_field = None,
          RESOURCE_DIR_field = None, SCRIPT_DIR_field = None, IMAGES_DIR_field = None,
          AUDIO_DIR_field = None, VIDEO_OUTPUT_DIR_field = None,
          SUBTITLE_OUTPUT_DIR_field = None\<rparr>)
       \<lparr>req_topic = ''dogs'', req_duration = 60, key_points = [], style = ''educational''\<rparr>
       (generate_video_filename ''dogs'' 1700000060)) \<and>
   images_dir (task_paths
       (Settings_init \<lparr>BASE_DIR_field = [''app''], STATIC_DIR_field = None,
          RESOURCE_DIR_field = None, SCRIPT_DIR_field = None, IMAGES_DIR_field = None,
          AUDIO_DIR_field = None, VIDEO_OUTPUT_DIR_field = None,
          SUBTITLE_OUTPUT_DIR_field = None\<rparr>)
       \<lparr>req_topic = ''cats'', req_duration = 60, key_points = [], style = ''educational''\<rparr>
       (generate_video_filename ''cats'' 1700000000))
   = [''app'', ''resources'', ''images'']"
  by (simp add: task_paths_def Settings_init_def or_default_def)

section \<open>The subtitle call\<close>

lemma srt_segment_step_ok:
  "chunk_size \<noteq> 0 \<Longrightarrow> \<exists>st'. srt_segment_step chunk_size st p = Inr st'"
  by (simp add: srt_segment_step_def py_range_def Let_def)

lemma srt_loop_ok:
  "chunk_size \<noteq> 0 \<Longrightarrow> \<exists>st'. srt_loop chunk_size st ps = Inr st'"
proof (induction ps arbitrary: st)
  case Nil
  show ?case by simp
next
  case (Cons p ps)
  from Cons.prems obtain st1 where s: "srt_segment_step chunk_size st p = Inr st1"
    using srt_segment_step_ok by blast
  from Cons.IH [OF Cons.prems] obtain st2 where "srt_loop chunk_size st1 ps = Inr st2"
    by blast
  with s show ?case by simp
qed

lemma json_extract_no_script: "\<forall>d. sf \<noteq> Script d \<Longrightarrow> json_extract sf = []"
  by (cases sf) (simp_all add: json_extract_def extract_audio_from_json_def)

lemma get_files_not_dir: "\<forall>es. folder \<noteq> IsDir es \<Longrightarrow> get_files folder exts = Inl OSError"
  by (cases folder) (simp_all add: get_files_def)

text \<open>
  Claim C10, as the code has it. Once the directory of the output file has been created,
  \<^verbatim>\<open>create_complete_srt\<close> returns a boolean and does not raise, and it returns
  \<^verbatim>\<open>True\<close> exactly when it has saved a subtitle file. A script file that is missing
  or is not valid JSON is no failure: the texts are then empty, and when the audio
  folder can be listed, its files can be read and the file can be saved, the call
  returns \<^verbatim>\<open>True\<close> having saved a subtitle file without cues. An audio folder that is
  no directory, an audio file that cannot be read and a failure to save each give
  \<^verbatim>\<open>False\<close>. The task does not read the boolean: its outcome is the one it has when
  the call returns \<^verbatim>\<open>True\<close>.
\<close>

theorem create_complete_srt_returns:
  assumes "srt_parent_mkdir w"
  shows "(\<exists>r. create_complete_srt w chunk_size = Inr r \<and> returned r = (saved r \<noteq> None)) \<and>
         ((\<forall>d. script_path w \<noteq> Script d) \<and>
          get_files (audio_folder w) [''.wav'', ''.mp3''] = Inr fs \<and>
          audio_clips (audio_duration w) fs = Inr ds \<and> srt_save_ok w \<longrightarrow>
            create_complete_srt w chunk_size = Inr \<lparr>returned = True, saved = Some []\<rparr>) \<and>
         ((\<forall>es. audio_folder w \<noteq> IsDir es) \<or>
          (get_files (audio_folder w) [''.wav'', ''.mp3''] = Inr fs \<and>
           audio_clips (audio_duration w) fs = Inl e) \<or>
          \<not> srt_save_ok w \<longrightarrow>
            create_complete_srt w chunk_size = Inr \<lparr>returned = False, saved = None\<rparr>) \<and>
         generate_video_task (s\<lparr>srt_stage := srt_call w chunk_size\<rparr>)
           = generate_video_task (s\<lparr>srt_stage := Inr True\<rparr>)"
proof (intro conjI impI)
  show "\<exists>r. create_complete_srt w chunk_size = Inr r \<and> returned r = (saved r \<noteq> None)"
    using assms by (cases "srt_try w chunk_size") (simp_all add: create_complete_srt_def)
next
  assume a: "(\<forall>d. script_path w \<noteq> Script d) \<and>
          get_files (audio_folder w) [''.wav'', ''.mp3''] = Inr fs \<and>
          audio_clips (audio_duration w) fs = Inr ds \<and> srt_save_ok w"
  then have "json_extract (script_path w) = []"
    using json_extract_no_script by blast
  with a have "srt_try w chunk_size = Inr []"
    by (simp add: srt_try_def srt_init_def)
  with assms show "create_complete_srt w chunk_size = Inr \<lparr>returned = True, saved = Some []\<rparr>"
    by (simp add: create_complete_srt_def)
next
  assume a: "(\<forall>es. audio_folder w \<noteq> IsDir es) \<or>
          (get_files (audio_folder w) [''.wav'', ''.mp3''] = Inr fs \<and>
           audio_clips (audio_duration w) fs = Inl e) \<or>
          \<not> srt_save_ok w"
  have "\<exists>e'. srt_try w chunk_size = Inl e'"
    using a
  proof (elim disjE)
    assume "\<forall>es. audio_folder w \<noteq> IsDir es"
    then have "get_files (audio_folder w) [''.wav'', ''.mp3''] = Inl OSError"
      by (rule get_files_not_dir)
    then show ?thesis by (simp add: srt_try_def)
  next
    assume "get_files (audio_folder w) [''.wav'', ''.mp3''] = Inr fs \<and>
           audio_clips (audio_duration w) fs = Inl e"
    then show ?thesis by (simp add: srt_try_def)
  next
    assume "\<not> srt_save_ok w"
    then show ?thesis
      by (simp add: srt_try_def Let_def split: sum.splits)
  qed
  then obtain e' where "srt_try w chunk_size = Inl e'" by blast
  with assms show "create_complete_srt w chunk_size = Inr \<lparr>returned = False, saved = None\<rparr>"
    by (simp add: create_complete_srt_def)
next
  have "\<exists>b. srt_call w chunk_size = Inr b"
    using assms by (cases "srt_try w chunk_size") (auto simp: srt_call_def create_complete_srt_def)
  then obtain b where "srt_call w chunk_size = Inr b" by blast
  then show "generate_video_task (s\<lparr>srt_stage := srt_call w chunk_size\<rparr>)
           = generate_video_task (s\<lparr>srt_stage := Inr True\<rparr>)"
    using generate_video_task_ignores_srt [where s = s and b = b] by (simp only:)
qed

text \<open>
  The theorem at two inputs: a missing script file beside one readable audio file, and
  an audio folder that does not exist.
\<close>

theorem create_complete_srt_returns_witness:
  "create_complete_srt
     \<lparr>image_folder = None, audio_folder = IsDir [regular ''segment_1.mp3''],
      script_path = NoFile, font_is_file = True, intro_image_is_file = True,
      video_parent_mkdir = True, srt_parent_mkdir = True,
      audio_duration = (\<lambda>f. Some 3), image_loads = (\<lambda>i. True),
      intro_clip_ok = (\<lambda>t. True), text_clip_ok = (\<lambda>t. True),
      write_videofile_ok = True, srt_save_ok = True\<rparr> 10
     = Inr \<lparr>returned = True, saved = Some []\<rparr> \<and>
   create_complete_srt
     \<lparr>image_folder = None, audio_folder = Absent,
      script_path = NoFile, font_is_file = True, intro_image_is_file = True,
      video_parent_mkdir = True, srt_parent_mkdir = True,
      audio_duration = (\<lambda>f. Some 3), image_loads = (\<lambda>i. True),
      intro_clip_ok = (\<lambda>t. True), text_clip_ok = (\<lambda>t. True),
      write_videofile_ok = True, srt_save_ok = True\<rparr> 10
     = Inr \<lparr>returned = False, saved = None\<rparr>"
  using create_complete_srt_returns
    [where w = "\<lparr>image_folder = None, audio_folder = IsDir [regular ''segment_1.mp3''],
      script_path = NoFile, font_is_file = True, intro_image_is_file = True,
      video_parent_mkdir = True, srt_parent_mkdir = True,
      audio_duration = (\<lambda>f. Some 3), image_loads = (\<lambda>i. True),
      intro_clip_ok = (\<lambda>t. True), text_clip_ok = (\<lambda>t. True),
      write_videofile_ok = True, srt_save_ok = True\<rparr>"
      and fs = "[''segment_1.mp3'']" and ds = "[3]" and chunk_size = 10]
    create_complete_srt_returns
    [where w = "\<lparr>image_folder = None, audio_folder = Absent,
      script_path = NoFile, font_is_file = True, intro_image_is_file = True,
      video_parent_mkdir = True, srt_parent_mkdir = True,
      audio_duration = (\<lambda>f. Some 3), image_loads = (\<lambda>i. True),
      intro_clip_ok = (\<lambda>t. True), text_clip_ok = (\<lambda>t. True),
      write_videofile_ok = True, srt_save_ok = True\<rparr>"
      and chunk_size = 10]
  by (simp add: path_simps)

text \<open>
  Claim C10 as stated fails twice. With the script file missing the call returns
  \<^verbatim>\<open>True\<close>, not \<^verbatim>\<open>False\<close>. When the directory of the output file cannot be created,
  which is attempted before the \<^verbatim>\<open>try\<close>, the call raises, and the task whose other
  stages all succeed fails in the subtitle stage.
\<close>

theorem create_complete_srt_counterexample:
  "create_complete_srt
     \<lparr>image_folder = None, audio_folder = IsDir [regular ''segment_1.mp3''],
      script_path = NoFile, font_is_file = True, intro_image_is_file = True,
      video_parent_mkdir = True, srt_parent_mkdir = True,
      audio_duration = (\<lambda>f. Some 3), image_loads = (\<lambda>i. True),
      intro_clip_ok = (\<lambda>t. True), text_clip_ok = (\<lambda>t. True),
      write_videofile_ok = True, srt_save_ok = True\<rparr> 10
     = Inr \<lparr>returned = True, saved = Some []\<rparr> \<and>
   create_complete_srt
     \<lparr>image_folder = None, audio_folder = IsDir [regular ''segment_1.mp3''],
      script_path = NoFile, font_is_file = True, intro_image_is_file = True,
      video_parent_mkdir = True, srt_parent_mkdir = False,
      audio_duration = (\<lambda>f. Some 3), image_loads = (\<lambda>i. True),
      intro_clip_ok = (\<lambda>t. True), text_clip_ok = (\<lambda>t. True),
      write_videofile_ok = True, srt_save_ok = True\<rparr> 10
     = Inl OSError \<and>
   generate_video_task
     \<lparr>clean_stage = Inr (), script_stage = Inr (), images_stage = Inr True,
      audio_stage = Inr (),
      srt_stage = srt_call
        \<lparr>image_folder = None, audio_folder = IsDir [regular ''segment_1.mp3''],
         script_path = NoFile, font_is_file = True, intro_image_is_file = True,
         video_parent_mkdir = True, srt_parent_mkdir = False,
         audio_duration = (\<lambda>f. Some 3), image_loads = (\<lambda>i. True),
         intro_clip_ok = (\<lambda>t. True), text_clip_ok = (\<lambda>t. True),
         write_videofile_ok = True, srt_save_ok = True\<rparr> 10,
      video_stage = Inr True, copy_stage = Inr ()\<rparr>
     = Failed TIMING OSError"
  by (simp add: create_complete_srt_def srt_try_def json_extract_def extract_audio_from_json_def
      srt_init_def srt_call_def generate_video_task_def path_simps)

section \<open>The image stage\<close>










section \<open>The assembled video\<close>

lemma clip_loop_Inr:
  "clip_loop w (cs, ds) ps = Inr (cs', ds') \<Longrightarrow>
   \<exists>es. length es = length ps \<and>
        (\<forall>i<length ps. audio_duration w (snd (ps ! i)) = Some (es ! i)) \<and>
        ds' = ds @ es \<and>
        cs' = cs @ map (\<lambda>i. Still (fst (ps ! i)) (snd (ps ! i)) (es ! i)) [0..<length ps]"
proof (induction ps arbitrary: cs ds)
  case Nil
  then show ?case by simp
next
  case (Cons p ps)
  obtain img audio where p: "p = (img, audio)" by (cases p)
  from Cons.prems p obtain d where d: "audio_duration w audio = Some d"
    by (cases "audio_duration w audio") simp_all
  from Cons.prems p d have l: "image_loads w img"
    by (cases "image_loads w img") simp_all
  from Cons.prems p d l
  have "clip_loop w (cs @ [Still img audio d], ds @ [d]) ps = Inr (cs', ds')" by simp
  from Cons.IH [OF this] obtain es where es: "length es = length ps"
    "\<forall>i<length ps. audio_duration w (snd (ps ! i)) = Some (es ! i)"
    "ds' = (ds @ [d]) @ es"
    "cs' = (cs @ [Still img audio d])
        @ map (\<lambda>i. Still (fst (ps ! i)) (snd (ps ! i)) (es ! i)) [0..<length ps]"
    by blast
  have m: "map (\<lambda>i. Still (fst ((p # ps) ! i)) (snd ((p # ps) ! i)) ((d # es) ! i))
             [0..<length (p # ps)]
         = Still img audio d
           # map (\<lambda>i. Still (fst (ps ! i)) (snd (ps ! i)) (es ! i)) [0..<length ps]"
    by (simp add: p upt_conv_Cons map_Suc_upt [symmetric] del: upt_Suc)
  have a: "\<forall>i<length (p # ps). audio_duration w (snd ((p # ps) ! i)) = Some ((d # es) ! i)"
  proof (intro allI impI)
    fix i assume "i < length (p # ps)"
    then show "audio_duration w (snd ((p # ps) ! i)) = Some ((d # es) ! i)"
      using es(2) d p by (cases i) simp_all
  qed
  show ?case
  proof (intro exI [of _ "d # es"] conjI)
    show "length (d # es) = length (p # ps)" using es(1) by simp
    show "\<forall>i<length (p # ps). audio_duration w (snd ((p # ps) ! i)) = Some ((d # es) ! i)"
      by (rule a)
    show "ds' = ds @ d # es" using es(3) by simp
    show "cs' = cs @ map (\<lambda>i. Still (fst ((p # ps) ! i)) (snd ((p # ps) ! i)) ((d # es) ! i))
             [0..<length (p # ps)]"
      unfolding m using es(4) by simp
  qed
qed


lemma create_video_Inr:
  assumes "create_video w with_subtitles = Inr v"
  shows "\<exists>audio_files images clips ds.
           get_files (audio_folder w) [''.mp3'', ''.wav''] = Inr audio_files \<and>
           choose_images w audio_files = Inr images \<and>
           clip_loop w ([TitleCard (extract_topic_from_json (script_path w)) 5], [])
             (zip images audio_files) = Inr (clips, ds) \<and>
           v = \<lparr>timeline = concatenate_videoclips
                   (clips @ [TitleCard ''MADE BY TEAM FRAGMENT'' 5]),
                captions = (if with_subtitles
                            then video_captions (json_extract (script_path w)) ds else [])\<rparr>"
proof -
  let ?title = "extract_topic_from_json (script_path w)"
  from assms obtain audio_files
    where f: "get_files (audio_folder w) [''.mp3'', ''.wav''] = Inr audio_files"
    by (cases "get_files (audio_folder w) [''.mp3'', ''.wav'']")
       (simp_all add: create_video_def split: if_splits)
  from assms f obtain images where i: "choose_images w audio_files = Inr images"
    by (cases "choose_images w audio_files") (simp_all add: create_video_def split: if_splits)
  from assms f i have ic: "create_intro_clip w 5 ?title = Inr (TitleCard ?title 5)"
    by (cases "intro_clip_ok w ?title")
       (simp_all add: create_video_def create_intro_clip_def Let_def split: if_splits)
  from assms f i ic obtain r
    where c: "clip_loop w ([TitleCard ?title 5], []) (zip images audio_files) = Inr r"
    by (cases "clip_loop w ([TitleCard ?title 5], []) (zip images audio_files)")
       (simp_all add: create_video_def Let_def split: if_splits)
  obtain clips ds where r: "r = (clips, ds)" by (cases r)
  from assms f i ic c r
  have oc: "create_intro_clip w 5 ''MADE BY TEAM FRAGMENT''
            = Inr (TitleCard ''MADE BY TEAM FRAGMENT'' 5)"
    by (cases "intro_clip_ok w ''MADE BY TEAM FRAGMENT''")
       (simp_all add: create_video_def create_intro_clip_def Let_def split: if_splits)
  from assms f i ic c r oc
  have "v = \<lparr>timeline = concatenate_videoclips
                   (clips @ [TitleCard ''MADE BY TEAM FRAGMENT'' 5]),
                captions = (if with_subtitles
                            then video_captions (json_extract (script_path w)) ds else [])\<rparr>"
    by (simp add: create_video_def render_captions_def Let_def split: if_splits)
  with f i c r show ?thesis by blast
qed

lemma shown_place_from: "map shown (place_from t cs) = cs"
  by (induction cs arbitrary: t) simp_all

lemma length_place_from: "length (place_from t cs) = length cs"
  by (induction cs arbitrary: t) simp_all

lemma place_from_hd: "cs \<noteq> [] \<Longrightarrow> clip_start (hd (place_from t cs)) = t"
  by (cases cs) simp_all

lemma place_from_gapless:
  "Suc i < length cs \<Longrightarrow>
   clip_start (place_from t cs ! Suc i) = clip_end (place_from t cs ! i)"
proof (induction cs arbitrary: t i)
  case Nil
  then show ?case by simp
next
  case (Cons c cs)
  show ?case
  proof (cases i)
    case 0
    with Cons.prems obtain c' cs' where "cs = c' # cs'" by (cases cs) simp_all
    with 0 show ?thesis by simp
  next
    case (Suc j)
    with Cons.prems have "Suc j < length cs" by simp
    from Cons.IH [OF this] Suc show ?thesis by simp
  qed
qed

lemma place_from_held:
  "p \<in> set (place_from t cs) \<Longrightarrow> clip_end p = clip_start p + clip_duration (shown p)"
  by (induction cs arbitrary: t) auto

lemma place_from_last:
  "cs \<noteq> [] \<Longrightarrow> clip_end (last (place_from t cs)) = t + sum_list (map clip_duration cs)"
proof (induction cs arbitrary: t)
  case Nil
  then show ?case by simp
next
  case (Cons c cs)
  show ?case
  proof (cases "cs = []")
    case True
    then show ?thesis by simp
  next
    case False
    then have "place_from (t + clip_duration c) cs \<noteq> []" by (cases cs) simp_all
    with Cons.IH [OF False, of "t + clip_duration c"] show ?thesis by simp
  qed
qed

lemma sum_stills:
  "sum_list (map clip_duration (map (\<lambda>i. Still (f i) (g i) (es ! i)) [0..<length es]))
     = sum_list es"
proof -
  have "map clip_duration (map (\<lambda>i. Still (f i) (g i) (es ! i)) [0..<length es])
      = map (\<lambda>i. es ! i) [0..<length es]"
    by simp
  also have "\<dots> = es" by (rule map_nth)
  finally show ?thesis by simp
qed

text \<open>
  Claim C6. A video that \<^verbatim>\<open>create_video\<close> has written is the title card of five
  seconds, then one still per pair of \<^verbatim>\<open>zip(images, audio_files)\<close> in order, each held
  for the duration of its audio file, then the closing card of five seconds. The clips
  are placed without gaps: the first starts at 0, each one starts where the one before
  it ends and ends its own duration later. The whole lasts 5 plus the sum of the paired
  audio durations plus 5.
\<close>

theorem create_video_timeline:
  assumes "create_video w with_subtitles = Inr v"
  shows "\<exists>audio_files images ds.
      get_files (audio_folder w) [''.mp3'', ''.wav''] = Inr audio_files \<and>
      choose_images w audio_files = Inr images \<and>
      length ds = min (length images) (length audio_files) \<and>
      (\<forall>i<length ds. audio_duration w (audio_files ! i) = Some (ds ! i)) \<and>
      map shown (timeline v) =
        TitleCard (extract_topic_from_json (script_path w)) 5
        # map (\<lambda>i. Still (images ! i) (audio_files ! i) (ds ! i)) [0..<length ds]
        @ [TitleCard ''MADE BY TEAM FRAGMENT'' 5] \<and>
      clip_start (hd (timeline v)) = 0 \<and>
      (\<forall>i. Suc i < length (timeline v) \<longrightarrow>
           clip_start (timeline v ! Suc i) = clip_end (timeline v ! i)) \<and>
      (\<forall>p\<in>set (timeline v). clip_end p = clip_start p + clip_duration (shown p)) \<and>
      timeline_duration (timeline v) = 5 + sum_list ds + 5"
proof -
  from create_video_Inr [OF assms] obtain audio_files images clips ds where
    f: "get_files (audio_folder w) [''.mp3'', ''.wav''] = Inr audio_files" and
    i: "choose_images w audio_files = Inr images" and
    c: "clip_loop w ([TitleCard (extract_topic_from_json (script_path w)) 5], [])
             (zip images audio_files) = Inr (clips, ds)" and
    v: "v = \<lparr>timeline = concatenate_videoclips
                   (clips @ [TitleCard ''MADE BY TEAM FRAGMENT'' 5]),
                captions = (if with_subtitles
                            then video_captions (json_extract (script_path w)) ds else [])\<rparr>"
    by blast
  let ?ps = "zip images audio_files"
  let ?title = "extract_topic_from_json (script_path w)"
  from clip_loop_Inr [OF c] obtain es where es: "length es = length ?ps"
    "\<forall>i<length ?ps. audio_duration w (snd (?ps ! i)) = Some (es ! i)"
    "ds = [] @ es"
    "clips = [TitleCard ?title 5]
        @ map (\<lambda>i. Still (fst (?ps ! i)) (snd (?ps ! i)) (es ! i)) [0..<length ?ps]"
    by blast
  have ds: "ds = es" using es(3) by simp
  have len: "length ds = min (length images) (length audio_files)"
    using es(1) ds by simp
  have dur: "\<forall>i<length ds. audio_duration w (audio_files ! i) = Some (ds ! i)"
    using es(2) len ds by simp
  let ?stills = "map (\<lambda>i. Still (images ! i) (audio_files ! i) (ds ! i)) [0..<length ds]"
  have "map (\<lambda>i. Still (fst (?ps ! i)) (snd (?ps ! i)) (es ! i)) [0..<length ?ps] = ?stills"
    using len ds es(1) by (intro nth_equalityI) simp_all
  with es(4) have clips: "clips = TitleCard ?title 5 # ?stills"
    by (simp add: create_intro_clip_def)
  let ?all = "TitleCard ?title 5 # ?stills @ [TitleCard ''MADE BY TEAM FRAGMENT'' 5]"
  have t: "timeline v = place_from 0 ?all"
    using v clips by (simp add: concatenate_videoclips_def create_intro_clip_def)
  have ne: "?all \<noteq> []" by simp
  have total: "timeline_duration (timeline v) = 5 + sum_list ds + 5"
  proof -
    have "timeline v \<noteq> []" unfolding t by simp
    then have "timeline_duration (timeline v) = clip_end (last (place_from 0 ?all))"
      unfolding timeline_duration_def t by simp
    also have "\<dots> = 0 + sum_list (map clip_duration ?all)"
      using ne by (rule place_from_last)
    also have "\<dots> = 5 + sum_list ds + 5"
      using sum_stills [of "\<lambda>i. images ! i" "\<lambda>i. audio_files ! i" ds] by simp
    finally show ?thesis .
  qed
  show ?thesis
  proof (intro exI conjI)
    show "get_files (audio_folder w) [''.mp3'', ''.wav''] = Inr audio_files" by (rule f)
    show "choose_images w audio_files = Inr images" by (rule i)
    show "length ds = min (length images) (length audio_files)" by (rule len)
    show "\<forall>i<length ds. audio_duration w (audio_files ! i) = Some (ds ! i)" by (rule dur)
    show "map shown (timeline v) = ?all" unfolding t by (rule shown_place_from)
    show "clip_start (hd (timeline v)) = 0" unfolding t using ne by (rule place_from_hd)
    show "\<forall>i. Suc i < length (timeline v) \<longrightarrow>
           clip_start (timeline v ! Suc i) = clip_end (timeline v ! i)"
    proof (intro allI impI)
      fix i assume "Suc i < length (timeline v)"
      then have "Suc i < length ?all" unfolding t by (simp only: length_place_from)
      then show "clip_start (timeline v ! Suc i) = clip_end (timeline v ! i)"
        unfolding t by (rule place_from_gapless)
    qed
    show "\<forall>p\<in>set (timeline v). clip_end p = clip_start p + clip_duration (shown p)"
      unfolding t using place_from_held by blast
    show "timeline_duration (timeline v) = 5 + sum_list ds + 5" by (rule total)
  qed
qed

text \<open>
  The theorem at the topic \<^verbatim>\<open>X\<close> with two images and two audio files of 3 and 4
  seconds: the video lasts 17 seconds.
\<close>

theorem create_video_timeline_witness:
  "create_video
     \<lparr>image_folder = Some (IsDir [regular ''scene_00-00.jpg'', regular ''scene_00-05.jpg'']),
        audio_folder = IsDir [regular ''segment_0.mp3'', regular ''segment_1.mp3''],
        script_path = Script \<lparr>topic = Some ''X'', audio_script = None, visual_script = None\<rparr>,
        font_is_file = True, intro_image_is_file = True, video_parent_mkdir = True,
        srt_parent_mkdir = True,
        audio_duration = (\<lambda>f. if f = ''segment_0.mp3'' then Some 3 else Some 4),
        image_loads = (\<lambda>i. True),
        intro_clip_ok = (\<lambda>t. True), text_clip_ok = (\<lambda>t. True),
        write_videofile_ok = True, srt_save_ok = True\<rparr> False
   = Inr
     \<lparr>timeline =
          [\<lparr>clip_start = 0, clip_end = 5, shown = TitleCard ''X'' 5\<rparr>,
           \<lparr>clip_start = 5, clip_end = 8,
            shown = Still (FolderImage ''scene_00-00.jpg'') ''segment_0.mp3'' 3\<rparr>,
           \<lparr>clip_start = 8, clip_end = 12,
            shown = Still (FolderImage ''scene_00-05.jpg'') ''segment_1.mp3'' 4\<rparr>,
           \<lparr>clip_start = 12, clip_end = 17, shown = TitleCard ''MADE BY TEAM FRAGMENT'' 5\<rparr>],
        captions = []\<rparr> \<and>
   timeline_duration (timeline
     \<lparr>timeline =
          [\<lparr>clip_start = 0, clip_end = 5, shown = TitleCard ''X'' 5\<rparr>,
           \<lparr>clip_start = 5, clip_end = 8,
            shown = Still (FolderImage ''scene_00-00.jpg'') ''segment_0.mp3'' 3\<rparr>,
           \<lparr>clip_start = 8, clip_end = 12,
            shown = Still (FolderImage ''scene_00-05.jpg'') ''segment_1.mp3'' 4\<rparr>,
           \<lparr>clip_start = 12, clip_end = 17, shown = TitleCard ''MADE BY TEAM FRAGMENT'' 5\<rparr>],
        captions = []\<rparr>) = 17"
proof -
  have e: "create_video
     \<lparr>image_folder = Some (IsDir [regular ''scene_00-00.jpg'', regular ''scene_00-05.jpg'']),
        audio_folder = IsDir [regular ''segment_0.mp3'', regular ''segment_1.mp3''],
        script_path = Script \<lparr>topic = Some ''X'', audio_script = None, visual_script = None\<rparr>,
        font_is_file = True, intro_image_is_file = True, video_parent_mkdir = True,
        srt_parent_mkdir = True,
        audio_duration = (\<lambda>f. if f = ''segment_0.mp3'' then Some 3 else Some 4),
        image_loads = (\<lambda>i. True),
        intro_clip_ok = (\<lambda>t. True), text_clip_ok = (\<lambda>t. True),
        write_videofile_ok = True, srt_save_ok = True\<rparr> False
   = Inr
     \<lparr>timeline =
          [\<lparr>clip_start = 0, clip_end = 5, shown = TitleCard ''X'' 5\<rparr>,
           \<lparr>clip_start = 5, clip_end = 8,
            shown = Still (FolderImage ''scene_00-00.jpg'') ''segment_0.mp3'' 3\<rparr>,
           \<lparr>clip_start = 8, clip_end = 12,
            shown = Still (FolderImage ''scene_00-05.jpg'') ''segment_1.mp3'' 4\<rparr>,
           \<lparr>clip_start = 12, clip_end = 17, shown = TitleCard ''MADE BY TEAM FRAGMENT'' 5\<rparr>],
        captions = []\<rparr>"
    by (simp add: create_video_def choose_images_def create_intro_clip_def render_captions_def
        extract_topic_from_json_def json_extract_def extract_audio_from_json_def
        concatenate_videoclips_def path_simps)
  from create_video_timeline [OF e] e show ?thesis
    by (simp add: timeline_duration_def)
qed





text \<open>
  The three cases are the ones the code tests for. A folder that holds entries none of
  which is an image is none of them: it is listed, and no image is found.
\<close>

lemma choose_images_no_image_file:
  "choose_images (w\<lparr>image_folder := Some (IsDir [regular ''notes.txt''])\<rparr>) audio_files = Inr []"
  by (simp add: choose_images_def path_simps)

section \<open>Cues of a segment and of a script\<close>

lemma split_ws_chunk:
  "split_ws (join '' '' (slice (split_ws s) i j)) = slice (split_ws s) i j"
proof -
  have "set (slice (split_ws s) i j) \<subseteq> set (split_ws s)"
    unfolding slice_def using set_take_subset set_drop_subset by fast
  then have "\<forall>w\<in>set (slice (split_ws s) i j). w \<noteq> [] \<and> (\<forall>c\<in>set w. \<not> is_space c)"
    using split_ws_elems [of _ s] by blast
  then show ?thesis by (rule split_ws_join)
qed

lemma cues_snoc_linked:
  assumes "\<forall>i<length cues. cue_start (cues ! i)
             = (if i = 0 then t0 else cue_end (cues ! (i - 1)))"
    and "t = (if cues = [] then t0 else cue_end (last cues))"
    and "cue_start c = t"
  shows "\<forall>i<length (cues @ [c]). cue_start ((cues @ [c]) ! i)
             = (if i = 0 then t0 else cue_end ((cues @ [c]) ! (i - 1)))"
proof (intro allI impI)
  fix i assume i: "i < length (cues @ [c])"
  show "cue_start ((cues @ [c]) ! i) = (if i = 0 then t0 else cue_end ((cues @ [c]) ! (i - 1)))"
  proof (cases "i < length cues")
    case True
    then have "(cues @ [c]) ! i = cues ! i" "(cues @ [c]) ! (i - 1) = cues ! (i - 1)"
      by (simp_all add: nth_append)
    with assms(1) True show ?thesis by simp
  next
    case False
    with i have e: "i = length cues" by simp
    show ?thesis
    proof (cases "cues = []")
      case True
      with e assms(2,3) show ?thesis by simp
    next
      case False
      then have "(cues @ [c]) ! (i - 1) = last cues"
        using e by (simp add: nth_append last_conv_nth)
      with e False assms(2,3) show ?thesis by simp
    qed
  qed
qed

lemma caps_snoc_linked:
  assumes "\<forall>i<length caps. cap_start (caps ! i)
             = (if i = 0 then t0
                else cap_start (caps ! (i - 1)) + cap_duration (caps ! (i - 1)))"
    and "t = (if caps = [] then t0 else cap_start (last caps) + cap_duration (last caps))"
    and "cap_start c = t"
  shows "\<forall>i<length (caps @ [c]). cap_start ((caps @ [c]) ! i)
             = (if i = 0 then t0
                else cap_start ((caps @ [c]) ! (i - 1)) + cap_duration ((caps @ [c]) ! (i - 1)))"
proof (intro allI impI)
  fix i assume i: "i < length (caps @ [c])"
  show "cap_start ((caps @ [c]) ! i)
      = (if i = 0 then t0
         else cap_start ((caps @ [c]) ! (i - 1)) + cap_duration ((caps @ [c]) ! (i - 1)))"
  proof (cases "i < length caps")
    case True
    then have "(caps @ [c]) ! i = caps ! i" "(caps @ [c]) ! (i - 1) = caps ! (i - 1)"
      by (simp_all add: nth_append)
    with assms(1) True show ?thesis by simp
  next
    case False
    with i have e: "i = length caps" by simp
    show ?thesis
    proof (cases "caps = []")
      case True
      with e assms(2,3) show ?thesis by simp
    next
      case False
      then have "(caps @ [c]) ! (i - 1) = last caps"
        using e by (simp add: nth_append last_conv_nth)
      with e False assms(2,3) show ?thesis by simp
    qed
  qed
qed

lemma srt_chunk_step_eq:
  "srt_chunk_step (split_ws txt) (int n) d st i =
     \<lparr>start_time = start_time st
        + d * (real (length (slice (split_ws txt) i (i + n))) / real (length (split_ws txt))),
      next_index = next_index st + 1,
      subs = subs st @
        [\<lparr>cue_index = next_index st, cue_start = start_time st,
          cue_end = start_time st
            + d * (real (length (slice (split_ws txt) i (i + n))) / real (length (split_ws txt))),
          cue_text = join '' '' (slice (split_ws txt) i (i + n))\<rparr>]\<rparr>"
  by (simp add: srt_chunk_step_def Let_def slice_min split_ws_chunk)

lemma srt_chunks_fold:
  "\<exists>cues. foldl (srt_chunk_step (split_ws txt) (int n) d) st starts =
      \<lparr>start_time = start_time st
         + d * (real (length (concat (map (\<lambda>i. slice (split_ws txt) i (i + n)) starts)))
                / real (length (split_ws txt))),
       next_index = next_index st + length cues,
       subs = subs st @ cues\<rparr> \<and>
     map cue_text cues = map (\<lambda>i. join '' '' (slice (split_ws txt) i (i + n))) starts \<and>
     (\<forall>c\<in>set cues. cue_end c = cue_start c
         + d * (real (length (split_ws (cue_text c))) / real (length (split_ws txt)))) \<and>
     (\<forall>i<length cues. cue_start (cues ! i)
         = (if i = 0 then start_time st else cue_end (cues ! (i - 1)))) \<and>
     start_time st
         + d * (real (length (concat (map (\<lambda>i. slice (split_ws txt) i (i + n)) starts)))
                / real (length (split_ws txt)))
       = (if cues = [] then start_time st else cue_end (last cues))"
proof (induction starts rule: rev_induct)
  case Nil
  show ?case by (intro exI [of _ "[]"]) simp
next
  case (snoc i starts)
  let ?W = "split_ws txt"
  let ?L = "length (concat (map (\<lambda>i. slice ?W i (i + n)) starts))"
  let ?l = "length (slice ?W i (i + n))"
  from snoc obtain cues where
    a: "foldl (srt_chunk_step ?W (int n) d) st starts =
      \<lparr>start_time = start_time st + d * (real ?L / real (length ?W)),
       next_index = next_index st + length cues,
       subs = subs st @ cues\<rparr>" and
    b: "map cue_text cues = map (\<lambda>i. join '' '' (slice ?W i (i + n))) starts" and
    c: "\<forall>c\<in>set cues. cue_end c = cue_start c
         + d * (real (length (split_ws (cue_text c))) / real (length ?W))" and
    li: "\<forall>i<length cues. cue_start (cues ! i)
         = (if i = 0 then start_time st else cue_end (cues ! (i - 1)))" and
    en: "start_time st + d * (real ?L / real (length ?W))
       = (if cues = [] then start_time st else cue_end (last cues))"
    by blast
  let ?T = "start_time st + d * (real ?L / real (length ?W))"
  let ?c = "\<lparr>cue_index = next_index st + length cues, cue_start = ?T,
             cue_end = ?T + d * (real ?l / real (length ?W)),
             cue_text = join '' '' (slice ?W i (i + n))\<rparr>"
  have t: "?T + d * (real ?l / real (length ?W))
      = start_time st + d * (real (?L + ?l) / real (length ?W))"
    by (simp add: add_divide_distrib distrib_left)
  have "foldl (srt_chunk_step ?W (int n) d) st (starts @ [i])
      = srt_chunk_step ?W (int n) d (foldl (srt_chunk_step ?W (int n) d) st starts) i"
    by simp
  also have "\<dots> = \<lparr>start_time = ?T + d * (real ?l / real (length ?W)),
       next_index = next_index st + length cues + 1,
       subs = (subs st @ cues) @ [?c]\<rparr>"
    unfolding a by (subst srt_chunk_step_eq) simp
  also have "\<dots> = \<lparr>start_time = start_time st
         + d * (real (length (concat (map (\<lambda>i. slice ?W i (i + n)) (starts @ [i]))))
                / real (length ?W)),
       next_index = next_index st + length (cues @ [?c]),
       subs = subs st @ (cues @ [?c])\<rparr>"
    using t by simp
  finally have a': "foldl (srt_chunk_step ?W (int n) d) st (starts @ [i]) =
      \<lparr>start_time = start_time st
         + d * (real (length (concat (map (\<lambda>i. slice ?W i (i + n)) (starts @ [i]))))
                / real (length ?W)),
       next_index = next_index st + length (cues @ [?c]),
       subs = subs st @ (cues @ [?c])\<rparr>" .
  have b': "map cue_text (cues @ [?c])
      = map (\<lambda>i. join '' '' (slice ?W i (i + n))) (starts @ [i])"
    using b by simp
  have c': "\<forall>c\<in>set (cues @ [?c]). cue_end c = cue_start c
         + d * (real (length (split_ws (cue_text c))) / real (length ?W))"
    using c by (simp add: split_ws_chunk)
  have "cue_start ?c = ?T" by simp
  from cues_snoc_linked [OF li en this]
  have li': "\<forall>i<length (cues @ [?c]). cue_start ((cues @ [?c]) ! i)
         = (if i = 0 then start_time st else cue_end ((cues @ [?c]) ! (i - 1)))" .
  have en': "start_time st
         + d * (real (length (concat (map (\<lambda>i. slice ?W i (i + n)) (starts @ [i]))))
                / real (length ?W))
       = (if cues @ [?c] = [] then start_time st else cue_end (last (cues @ [?c])))"
    using t by simp
  from a' b' c' li' en' show ?case by blast
qed

lemma video_chunk_step_eq:
  "video_chunk_step (split_ws txt) d st i =
     \<lparr>Start_duration = Start_duration st
        + d * (real (length (slice (split_ws txt) i (i + video_chunk_size)))
               / real (length (split_ws txt))),
      subtitle_clips = subtitle_clips st @
        [\<lparr>cap_text = join '' '' (slice (split_ws txt) i (i + video_chunk_size)),
          cap_start = Start_duration st,
          cap_duration = d * (real (length (slice (split_ws txt) i (i + video_chunk_size)))
                              / real (length (split_ws txt)))\<rparr>]\<rparr>"
  by (simp add: video_chunk_step_def Let_def split_ws_chunk)

lemma video_chunks_fold:
  "\<exists>caps. foldl (video_chunk_step (split_ws txt) d) st starts =
      \<lparr>Start_duration = Start_duration st
         + d * (real (length (concat (map (\<lambda>i. slice (split_ws txt) i (i + video_chunk_size))
                                        starts)))
                / real (length (split_ws txt))),
       subtitle_clips = subtitle_clips st @ caps\<rparr> \<and>
     map cap_text caps
       = map (\<lambda>i. join '' '' (slice (split_ws txt) i (i + video_chunk_size))) starts \<and>
     (\<forall>c\<in>set caps. cap_duration c
         = d * (real (length (split_ws (cap_text c))) / real (length (split_ws txt)))) \<and>
     (\<forall>i<length caps. cap_start (caps ! i)
         = (if i = 0 then Start_duration st
            else cap_start (caps ! (i - 1)) + cap_duration (caps ! (i - 1)))) \<and>
     Start_duration st
         + d * (real (length (concat (map (\<lambda>i. slice (split_ws txt) i (i + video_chunk_size))
                                        starts)))
                / real (length (split_ws txt)))
       = (if caps = [] then Start_duration st
          else cap_start (last caps) + cap_duration (last caps))"
proof (induction starts rule: rev_induct)
  case Nil
  show ?case by (intro exI [of _ "[]"]) simp
next
  case (snoc i starts)
  let ?W = "split_ws txt"
  let ?n = video_chunk_size
  let ?L = "length (concat (map (\<lambda>i. slice ?W i (i + ?n)) starts))"
  let ?l = "length (slice ?W i (i + ?n))"
  from snoc obtain caps where
    a: "foldl (video_chunk_step ?W d) st starts =
      \<lparr>Start_duration = Start_duration st + d * (real ?L / real (length ?W)),
       subtitle_clips = subtitle_clips st @ caps\<rparr>" and
    b: "map cap_text caps = map (\<lambda>i. join '' '' (slice ?W i (i + ?n))) starts" and
    c: "\<forall>c\<in>set caps. cap_duration c
         = d * (real (length (split_ws (cap_text c))) / real (length ?W))" and
    li: "\<forall>i<length caps. cap_start (caps ! i)
         = (if i = 0 then Start_duration st
            else cap_start (caps ! (i - 1)) + cap_duration (caps ! (i - 1)))" and
    en: "Start_duration st + d * (real ?L / real (length ?W))
       = (if caps = [] then Start_duration st
          else cap_start (last caps) + cap_duration (last caps))"
    by blast
  let ?T = "Start_duration st + d * (real ?L / real (length ?W))"
  let ?c = "\<lparr>cap_text = join '' '' (slice ?W i (i + ?n)), cap_start = ?T,
             cap_duration = d * (real ?l / real (length ?W))\<rparr>"
  have t: "?T + d * (real ?l / real (length ?W))
      = Start_duration st + d * (real (?L + ?l) / real (length ?W))"
    by (simp add: add_divide_distrib distrib_left)
  have "foldl (video_chunk_step ?W d) st (starts @ [i])
      = video_chunk_step ?W d (foldl (video_chunk_step ?W d) st starts) i"
    by simp
  also have "\<dots> = \<lparr>Start_duration = ?T + d * (real ?l / real (length ?W)),
       subtitle_clips = (subtitle_clips st @ caps) @ [?c]\<rparr>"
    unfolding a by (subst video_chunk_step_eq) simp
  also have "\<dots> = \<lparr>Start_duration = Start_duration st
         + d * (real (length (concat (map (\<lambda>i. slice ?W i (i + ?n)) (starts @ [i]))))
                / real (length ?W)),
       subtitle_clips = subtitle_clips st @ (caps @ [?c])\<rparr>"
    using t by simp
  finally have a': "foldl (video_chunk_step ?W d) st (starts @ [i]) =
      \<lparr>Start_duration = Start_duration st
         + d * (real (length (concat (map (\<lambda>i. slice ?W i (i + ?n)) (starts @ [i]))))
                / real (length ?W)),
       subtitle_clips = subtitle_clips st @ (caps @ [?c])\<rparr>" .
  have b': "map cap_text (caps @ [?c])
      = map (\<lambda>i. join '' '' (slice ?W i (i + ?n))) (starts @ [i])"
    using b by simp
  have c': "\<forall>c\<in>set (caps @ [?c]). cap_duration c
         = d * (real (length (split_ws (cap_text c))) / real (length ?W))"
    using c by (simp add: split_ws_chunk)
  have "cap_start ?c = ?T" by simp
  from caps_snoc_linked [OF li en this]
  have li': "\<forall>i<length (caps @ [?c]). cap_start ((caps @ [?c]) ! i)
         = (if i = 0 then Start_duration st
            else cap_start ((caps @ [?c]) ! (i - 1)) + cap_duration ((caps @ [?c]) ! (i - 1)))" .
  have en': "Start_duration st
         + d * (real (length (concat (map (\<lambda>i. slice ?W i (i + ?n)) (starts @ [i]))))
                / real (length ?W))
       = (if caps @ [?c] = [] then Start_duration st
          else cap_start (last (caps @ [?c])) + cap_duration (last (caps @ [?c])))"
    using t by simp
  from a' b' c' li' en' show ?case by blast
qed

lemma chunk_texts:
  assumes "0 < n"
    and "ts = map (\<lambda>i. join '' '' (slice (split_ws s) i (i + n)))
                (range_step (length (split_ws s)) n)"
  shows "concat (map split_ws ts) = split_ws s"
    and "\<forall>t\<in>set ts. 0 < length (split_ws t) \<and> length (split_ws t) \<le> n"
    and "\<forall>t\<in>set (butlast ts). length (split_ws t) = n"
    and "length ts = (length (split_ws s) + n - 1) div n"
proof -
  let ?W = "split_ws s"
  let ?starts = "range_step (length ?W) n"
  have "concat (map split_ws ts) = concat (map (\<lambda>i. slice ?W i (i + n)) ?starts)"
    unfolding assms(2) by (simp add: comp_def split_ws_chunk)
  also have "\<dots> = ?W" using assms(1) by (rule concat_chunks)
  finally show "concat (map split_ws ts) = split_ws s" .
  show "\<forall>t\<in>set ts. 0 < length (split_ws t) \<and> length (split_ws t) \<le> n"
  proof
    fix t assume "t \<in> set ts"
    then obtain i where i: "i \<in> set ?starts" "t = join '' '' (slice ?W i (i + n))"
      unfolding assms(2) by auto
    have "slice ?W i (i + n) \<noteq> []" using assms(1) i(1) by (rule chunk_nonempty)
    then show "0 < length (split_ws t) \<and> length (split_ws t) \<le> n"
      unfolding i(2) split_ws_chunk using chunk_length_le [of ?W i n] by simp
  qed
  show "\<forall>t\<in>set (butlast ts). length (split_ws t) = n"
  proof
    fix t assume "t \<in> set (butlast ts)"
    then have "t \<in> set (map (\<lambda>i. join '' '' (slice ?W i (i + n))) (butlast ?starts))"
      unfolding assms(2) by (simp only: map_butlast)
    then obtain i where i: "i \<in> set (butlast ?starts)" "t = join '' '' (slice ?W i (i + n))"
      by auto
    show "length (split_ws t) = n"
      unfolding i(2) split_ws_chunk using assms(1) i(1) by (rule chunk_full)
  qed
  show "length ts = (length (split_ws s) + n - 1) div n"
    unfolding assms(2) by (simp add: length_range_step)
qed

lemma cue_texts_butlast:
  "c \<in> set (butlast cs) \<Longrightarrow> f c \<in> set (butlast (map f cs))"
  by (simp add: map_butlast [symmetric])

lemma srt_segment_step_chunks:
  assumes "0 < chunk_size" and "chunk_size < int (length (split_ws segment))"
  shows "\<exists>cues. srt_segment_step chunk_size st (segment, duration) =
      Inr \<lparr>start_time = start_time st + duration,
           next_index = next_index st + length cues,
           subs = subs st @ cues\<rparr> \<and>
    length cues = (length (split_ws segment) + nat chunk_size - 1) div nat chunk_size \<and>
    concat (map (\<lambda>c. split_ws (cue_text c)) cues) = split_ws segment \<and>
    (\<forall>c\<in>set cues. 0 < length (split_ws (cue_text c))
                  \<and> length (split_ws (cue_text c)) \<le> nat chunk_size) \<and>
    (\<forall>c\<in>set (butlast cues). length (split_ws (cue_text c)) = nat chunk_size) \<and>
    (\<forall>c\<in>set cues. cue_end c = cue_start c
        + duration * (real (length (split_ws (cue_text c)))
                      / real (length (split_ws segment)))) \<and>
    cue_start (hd cues) = start_time st \<and>
    (\<forall>i. Suc i < length cues \<longrightarrow> cue_start (cues ! Suc i) = cue_end (cues ! i)) \<and>
    cue_end (last cues) = start_time st + duration"
proof -
  let ?W = "split_ws segment"
  let ?n = "nat chunk_size"
  let ?starts = "range_step (length ?W) ?n"
  let ?ts = "map (\<lambda>i. join '' '' (slice ?W i (i + ?n))) ?starts"
  have n: "0 < ?n" "chunk_size = int ?n" using assms(1) by simp_all
  have W: "0 < length ?W" using assms by linarith
  note ct = chunk_texts [where s = segment and n = "nat chunk_size", OF n(1) refl]
  have full: "length (concat (map (\<lambda>i. slice ?W i (i + ?n)) ?starts)) = length ?W"
    using concat_chunks [OF n(1), of ?W] by simp
  from srt_chunks_fold [of segment ?n duration st ?starts] obtain cues where
    a: "foldl (srt_chunk_step ?W (int ?n) duration) st ?starts =
      \<lparr>start_time = start_time st
         + duration * (real (length (concat (map (\<lambda>i. slice ?W i (i + ?n)) ?starts)))
                / real (length ?W)),
       next_index = next_index st + length cues,
       subs = subs st @ cues\<rparr>" and
    b: "map cue_text cues = ?ts" and
    c: "\<forall>c\<in>set cues. cue_end c = cue_start c
         + duration * (real (length (split_ws (cue_text c))) / real (length ?W))" and
    li: "\<forall>i<length cues. cue_start (cues ! i)
         = (if i = 0 then start_time st else cue_end (cues ! (i - 1)))" and
    en: "start_time st
         + duration * (real (length (concat (map (\<lambda>i. slice ?W i (i + ?n)) ?starts)))
                / real (length ?W))
       = (if cues = [] then start_time st else cue_end (last cues))"
    by blast
  have r: "srt_segment_step chunk_size st (segment, duration) =
            Inr \<lparr>start_time = start_time st + duration,
                 next_index = next_index st + length cues,
                 subs = subs st @ cues\<rparr>"
  proof -
    have "srt_segment_step chunk_size st (segment, duration)
        = Inr (foldl (srt_chunk_step ?W (int ?n) duration) st ?starts)"
      using assms by (simp add: srt_segment_step_def py_range_def Let_def)
    also have "\<dots> = Inr \<lparr>start_time = start_time st + duration,
                 next_index = next_index st + length cues,
                 subs = subs st @ cues\<rparr>"
      unfolding a full using W by simp
    finally show ?thesis .
  qed
  have l: "length cues = length ?ts" using b map_eq_imp_length_eq by fastforce
  have cc: "concat (map (\<lambda>c. split_ws (cue_text c)) cues) = ?W"
  proof -
    have "concat (map (\<lambda>c. split_ws (cue_text c)) cues)
        = concat (map split_ws (map cue_text cues))"
      by (simp add: comp_def)
    also have "\<dots> = ?W" unfolding b by (rule ct(1))
    finally show ?thesis .
  qed
  have le: "\<forall>c\<in>set cues. 0 < length (split_ws (cue_text c))
                        \<and> length (split_ws (cue_text c)) \<le> ?n"
  proof
    fix c assume "c \<in> set cues"
    then have "cue_text c \<in> set (map cue_text cues)" by simp
    then have "cue_text c \<in> set ?ts" by (simp only: b)
    with ct(2) show "0 < length (split_ws (cue_text c))
                        \<and> length (split_ws (cue_text c)) \<le> ?n" by blast
  qed
  have fu: "\<forall>c\<in>set (butlast cues). length (split_ws (cue_text c)) = ?n"
  proof
    fix c assume "c \<in> set (butlast cues)"
    then have "cue_text c \<in> set (butlast (map cue_text cues))" by (rule cue_texts_butlast)
    then have "cue_text c \<in> set (butlast ?ts)" by (simp only: b)
    with ct(3) show "length (split_ws (cue_text c)) = ?n" by blast
  qed
  have ne: "cues \<noteq> []" using cc W by auto
  have h: "cue_start (hd cues) = start_time st"
    using li ne by (simp add: hd_conv_nth)
  have lk: "\<forall>i. Suc i < length cues \<longrightarrow> cue_start (cues ! Suc i) = cue_end (cues ! i)"
    using li by auto
  have la: "cue_end (last cues) = start_time st + duration"
    using en ne W unfolding full by simp
  show ?thesis
    using r l ct(4) cc le fu c h lk la by (intro exI [of _ cues]) simp
qed

lemma video_segment_step_chunks:
  assumes v: "chunk_size = int video_chunk_size"
    and "chunk_size < int (length (split_ws segment))"
  shows "\<exists>caps. video_segment_step vst (segment, duration) =
      \<lparr>Start_duration = Start_duration vst + duration,
       subtitle_clips = subtitle_clips vst @ caps\<rparr> \<and>
    length caps = (length (split_ws segment) + nat chunk_size - 1) div nat chunk_size \<and>
    concat (map (\<lambda>c. split_ws (cap_text c)) caps) = split_ws segment \<and>
    (\<forall>c\<in>set caps. 0 < length (split_ws (cap_text c))
                  \<and> length (split_ws (cap_text c)) \<le> nat chunk_size) \<and>
    (\<forall>c\<in>set (butlast caps). length (split_ws (cap_text c)) = nat chunk_size) \<and>
    (\<forall>c\<in>set caps. cap_duration c
        = duration * (real (length (split_ws (cap_text c)))
                      / real (length (split_ws segment)))) \<and>
    cap_start (hd caps) = Start_duration vst \<and>
    (\<forall>i. Suc i < length caps \<longrightarrow>
         cap_start (caps ! Suc i) = cap_start (caps ! i) + cap_duration (caps ! i)) \<and>
    cap_start (last caps) + cap_duration (last caps) = Start_duration vst + duration"
proof -
  let ?W = "split_ws segment"
  let ?n = "nat chunk_size"
  let ?starts = "range_step (length ?W) video_chunk_size"
  let ?ts = "map (\<lambda>i. join '' '' (slice ?W i (i + video_chunk_size))) ?starts"
  have n: "?n = video_chunk_size" using v by simp
  have p: "0 < video_chunk_size" using v by (simp add: video_chunk_size_def)
  have W2: "video_chunk_size < length ?W" using assms(2) v by simp
  then have W: "0 < length ?W" "video_chunk_size < length ?W" by linarith+
  note ct = chunk_texts [where s = segment and n = video_chunk_size, OF p refl]
  have full: "length (concat (map (\<lambda>i. slice ?W i (i + video_chunk_size)) ?starts)) = length ?W"
    using concat_chunks [OF p, of ?W] by simp
  from video_chunks_fold [of segment duration vst ?starts] obtain caps where
    a: "foldl (video_chunk_step ?W duration) vst ?starts =
      \<lparr>Start_duration = Start_duration vst
         + duration * (real (length (concat (map (\<lambda>i. slice ?W i (i + video_chunk_size))
                                               ?starts)))
                / real (length ?W)),
       subtitle_clips = subtitle_clips vst @ caps\<rparr>" and
    b: "map cap_text caps = ?ts" and
    c: "\<forall>c\<in>set caps. cap_duration c
         = duration * (real (length (split_ws (cap_text c))) / real (length ?W))" and
    li: "\<forall>i<length caps. cap_start (caps ! i)
         = (if i = 0 then Start_duration vst
            else cap_start (caps ! (i - 1)) + cap_duration (caps ! (i - 1)))" and
    en: "Start_duration vst
         + duration * (real (length (concat (map (\<lambda>i. slice ?W i (i + video_chunk_size))
                                               ?starts)))
                / real (length ?W))
       = (if caps = [] then Start_duration vst
          else cap_start (last caps) + cap_duration (last caps))"
    by blast
  have r: "video_segment_step vst (segment, duration) =
            \<lparr>Start_duration = Start_duration vst + duration,
             subtitle_clips = subtitle_clips vst @ caps\<rparr>"
  proof -
    have "video_segment_step vst (segment, duration)
        = foldl (video_chunk_step ?W duration) vst ?starts"
      using W(2) by (simp add: video_segment_step_def Let_def)
    also have "\<dots> = \<lparr>Start_duration = Start_duration vst + duration,
             subtitle_clips = subtitle_clips vst @ caps\<rparr>"
      unfolding a full using W(1) by simp
    finally show ?thesis .
  qed
  have l: "length caps = length ?ts" using b map_eq_imp_length_eq by fastforce
  have cc: "concat (map (\<lambda>c. split_ws (cap_text c)) caps) = ?W"
  proof -
    have "concat (map (\<lambda>c. split_ws (cap_text c)) caps)
        = concat (map split_ws (map cap_text caps))"
      by (simp add: comp_def)
    also have "\<dots> = ?W" unfolding b by (rule ct(1))
    finally show ?thesis .
  qed
  have le: "\<forall>c\<in>set caps. 0 < length (split_ws (cap_text c))
                        \<and> length (split_ws (cap_text c)) \<le> video_chunk_size"
  proof
    fix c assume "c \<in> set caps"
    then have "cap_text c \<in> set (map cap_text caps)" by simp
    then have "cap_text c \<in> set ?ts" by (simp only: b)
    with ct(2) show "0 < length (split_ws (cap_text c))
                        \<and> length (split_ws (cap_text c)) \<le> video_chunk_size" by blast
  qed
  have fu: "\<forall>c\<in>set (butlast caps). length (split_ws (cap_text c)) = video_chunk_size"
  proof
    fix c assume "c \<in> set (butlast caps)"
    then have "cap_text c \<in> set (butlast (map cap_text caps))" by (rule cue_texts_butlast)
    then have "cap_text c \<in> set (butlast ?ts)" by (simp only: b)
    with ct(3) show "length (split_ws (cap_text c)) = video_chunk_size" by blast
  qed
  have ne: "caps \<noteq> []" using cc W(1) by auto
  have h: "cap_start (hd caps) = Start_duration vst"
    using li ne by (simp add: hd_conv_nth)
  have lk: "\<forall>i. Suc i < length caps \<longrightarrow>
         cap_start (caps ! Suc i) = cap_start (caps ! i) + cap_duration (caps ! i)"
    using li by auto
  have la: "cap_start (last caps) + cap_duration (last caps) = Start_duration vst + duration"
    using en ne W(1) unfolding full by simp
  show ?thesis
    unfolding n using r l ct(4) cc le fu c h lk la by (intro exI [of _ caps]) simp
qed

text \<open>
  Claim C2. A segment with more words than the chunk size is cut into consecutive
  chunks: the words of the cues, put one after the other, are the words of the segment,
  every cue has at least one word and at most \<open>chunk_size\<close> words, and every cue but
  the last has exactly \<open>chunk_size\<close>. A cue of \<open>wc\<close> words out of \<open>W\<close> lasts the
  duration of the segment times \<open>wc / W\<close>. The first cue starts at the time the segment
  starts at, every other cue starts where the cue before it ends, and the last cue ends
  the duration of the segment after the start. The subtitle file computes this for any positive chunk size; the captions
  of the video compute the same for their chunk size of ten.
\<close>

theorem srt_segment_step_proportional:
  assumes "0 < chunk_size" and "chunk_size < int (length (split_ws segment))"
  shows "(\<exists>cues. srt_segment_step chunk_size st (segment, duration) =
            Inr \<lparr>start_time = start_time st + duration,
                 next_index = next_index st + length cues,
                 subs = subs st @ cues\<rparr> \<and>
          length cues = (length (split_ws segment) + nat chunk_size - 1) div nat chunk_size \<and>
          concat (map (\<lambda>c. split_ws (cue_text c)) cues) = split_ws segment \<and>
          (\<forall>c\<in>set cues. 0 < length (split_ws (cue_text c))
                        \<and> length (split_ws (cue_text c)) \<le> nat chunk_size) \<and>
          (\<forall>c\<in>set (butlast cues). length (split_ws (cue_text c)) = nat chunk_size) \<and>
          (\<forall>c\<in>set cues. cue_end c = cue_start c
              + duration * (real (length (split_ws (cue_text c)))
                            / real (length (split_ws segment)))) \<and>
          cue_start (hd cues) = start_time st \<and>
          (\<forall>i. Suc i < length cues \<longrightarrow> cue_start (cues ! Suc i) = cue_end (cues ! i)) \<and>
          cue_end (last cues) = start_time st + duration) \<and>
         (chunk_size = int video_chunk_size \<longrightarrow>
           (\<exists>caps. video_segment_step vst (segment, duration) =
              \<lparr>Start_duration = Start_duration vst + duration,
               subtitle_clips = subtitle_clips vst @ caps\<rparr> \<and>
            length caps = (length (split_ws segment) + nat chunk_size - 1) div nat chunk_size \<and>
            concat (map (\<lambda>c. split_ws (cap_text c)) caps) = split_ws segment \<and>
            (\<forall>c\<in>set caps. 0 < length (split_ws (cap_text c))
                          \<and> length (split_ws (cap_text c)) \<le> nat chunk_size) \<and>
            (\<forall>c\<in>set (butlast caps). length (split_ws (cap_text c)) = nat chunk_size) \<and>
            (\<forall>c\<in>set caps. cap_duration c
                = duration * (real (length (split_ws (cap_text c)))
                              / real (length (split_ws segment)))) \<and>
            cap_start (hd caps) = Start_duration vst \<and>
            (\<forall>i. Suc i < length caps \<longrightarrow>
                 cap_start (caps ! Suc i) = cap_start (caps ! i) + cap_duration (caps ! i)) \<and>
            cap_start (last caps) + cap_duration (last caps)
              = Start_duration vst + duration))"
  using srt_segment_step_chunks [OF assms] video_segment_step_chunks [OF _ assms(2)]
  by blast

text \<open>
  The theorem at 25 words, 10 seconds and chunks of 10 words: three cues of 10, 10 and
  5 words that last 4, 4 and 2 seconds, from 5, 9 and 13 to 15.
\<close>

theorem srt_segment_step_proportional_witness:
  "srt_segment_step 10 \<lparr>start_time = 5, next_index = 1, subs = []\<rparr>
     (''a b c d e f g h i j k l m n o p q r s t u v w x y'', 10)
   = Inr \<lparr>start_time = 15, next_index = 4,
          subs = [\<lparr>cue_index = 1, cue_start = 5, cue_end = 9,
                    cue_text = ''a b c d e f g h i j''\<rparr>,
                  \<lparr>cue_index = 2, cue_start = 9, cue_end = 13,
                    cue_text = ''k l m n o p q r s t''\<rparr>,
                  \<lparr>cue_index = 3, cue_start = 13, cue_end = 15,
                    cue_text = ''u v w x y''\<rparr>]\<rparr> \<and>
   video_segment_step \<lparr>Start_duration = 5, subtitle_clips = []\<rparr>
     (''a b c d e f g h i j k l m n o p q r s t u v w x y'', 10)
   = \<lparr>Start_duration = 15,
      subtitle_clips = [\<lparr>cap_text = ''a b c d e f g h i j'', cap_start = 5, cap_duration = 4\<rparr>,
                        \<lparr>cap_text = ''k l m n o p q r s t'', cap_start = 9, cap_duration = 4\<rparr>,
                        \<lparr>cap_text = ''u v w x y'', cap_start = 13, cap_duration = 2\<rparr>]\<rparr>"
  using srt_segment_step_proportional
    [where chunk_size = 10 and segment = "''a b c d e f g h i j k l m n o p q r s t u v w x y''"
       and duration = 10 and st = "\<lparr>start_time = 5, next_index = 1, subs = []\<rparr>"
       and vst = "\<lparr>Start_duration = 5, subtitle_clips = []\<rparr>"]
  by (simp add: srt_segment_step_def video_segment_step_def video_chunk_size_def py_range_def
      range_step_def srt_chunk_step_def video_chunk_step_def slice_def split_ws_def
      is_space_def Let_def upt_conv_Cons)

lemma srt_chunk_step_linked:
  assumes "\<forall>i<length (subs st). cue_start (subs st ! i)
             = (if i = 0 then t0 else cue_end (subs st ! (i - 1)))"
    and "start_time st = (if subs st = [] then t0 else cue_end (last (subs st)))"
  shows "(\<forall>i<length (subs (srt_chunk_step ws cs d st k)).
            cue_start (subs (srt_chunk_step ws cs d st k) ! i)
             = (if i = 0 then t0
                else cue_end (subs (srt_chunk_step ws cs d st k) ! (i - 1)))) \<and>
         start_time (srt_chunk_step ws cs d st k)
           = (if subs (srt_chunk_step ws cs d st k) = [] then t0
              else cue_end (last (subs (srt_chunk_step ws cs d st k))))"
proof -
  let ?e = "start_time st
     + d * (real (length (split_ws (join '' '' (slice ws k (min (k + nat cs) (length ws))))))
            / real (length ws))"
  let ?c = "\<lparr>cue_index = next_index st, cue_start = start_time st, cue_end = ?e,
             cue_text = join '' '' (slice ws k (min (k + nat cs) (length ws)))\<rparr>"
  have s: "srt_chunk_step ws cs d st k
      = \<lparr>start_time = ?e, next_index = next_index st + 1, subs = subs st @ [?c]\<rparr>"
    by (simp add: srt_chunk_step_def Let_def)
  have "cue_start ?c = start_time st" by simp
  from cues_snoc_linked [OF assms(1) assms(2) this] show ?thesis
    unfolding s by simp
qed

lemma srt_chunks_linked:
  assumes "\<forall>i<length (subs st). cue_start (subs st ! i)
             = (if i = 0 then t0 else cue_end (subs st ! (i - 1)))"
    and "start_time st = (if subs st = [] then t0 else cue_end (last (subs st)))"
  shows "(\<forall>i<length (subs (foldl (srt_chunk_step ws cs d) st starts)).
            cue_start (subs (foldl (srt_chunk_step ws cs d) st starts) ! i)
             = (if i = 0 then t0
                else cue_end (subs (foldl (srt_chunk_step ws cs d) st starts) ! (i - 1)))) \<and>
         start_time (foldl (srt_chunk_step ws cs d) st starts)
           = (if subs (foldl (srt_chunk_step ws cs d) st starts) = [] then t0
              else cue_end (last (subs (foldl (srt_chunk_step ws cs d) st starts))))"
  using assms
proof (induction starts arbitrary: st)
  case Nil
  then show ?case by simp
next
  case (Cons k starts)
  from srt_chunk_step_linked [OF Cons.prems, of ws cs d k]
  have a: "\<forall>i<length (subs (srt_chunk_step ws cs d st k)).
            cue_start (subs (srt_chunk_step ws cs d st k) ! i)
             = (if i = 0 then t0
                else cue_end (subs (srt_chunk_step ws cs d st k) ! (i - 1)))"
    and b: "start_time (srt_chunk_step ws cs d st k)
           = (if subs (srt_chunk_step ws cs d st k) = [] then t0
              else cue_end (last (subs (srt_chunk_step ws cs d st k))))"
    by blast+
  from Cons.IH [OF a b] show ?case by simp
qed

lemma srt_segment_step_linked:
  assumes "\<forall>i<length (subs st). cue_start (subs st ! i)
             = (if i = 0 then t0 else cue_end (subs st ! (i - 1)))"
    and "start_time st = (if subs st = [] then t0 else cue_end (last (subs st)))"
    and "srt_segment_step cs st p = Inr st'"
  shows "(\<forall>i<length (subs st'). cue_start (subs st' ! i)
             = (if i = 0 then t0 else cue_end (subs st' ! (i - 1)))) \<and>
         start_time st' = (if subs st' = [] then t0 else cue_end (last (subs st')))"
proof (cases "cs < int (length (split_ws (fst p)))")
  case True
  with assms(3) have "\<exists>starts. st' = foldl (srt_chunk_step (split_ws (fst p)) cs (snd p)) st starts"
    by (cases "py_range (length (split_ws (fst p))) cs")
       (auto simp: srt_segment_step_def Let_def)
  then obtain starts
    where "st' = foldl (srt_chunk_step (split_ws (fst p)) cs (snd p)) st starts"
    by blast
  then show ?thesis using srt_chunks_linked [OF assms(1,2)] by simp
next
  case False
  let ?c = "\<lparr>cue_index = next_index st, cue_start = start_time st,
             cue_end = start_time st + snd p, cue_text = fst p\<rparr>"
  from False assms(3)
  have s: "st' = \<lparr>start_time = start_time st + snd p, next_index = next_index st + 1,
                  subs = subs st @ [?c]\<rparr>"
    by (simp add: srt_segment_step_def Let_def)
  have "cue_start ?c = start_time st" by simp
  from cues_snoc_linked [OF assms(1) assms(2) this] show ?thesis
    unfolding s by simp
qed

lemma srt_loop_linked:
  assumes "\<forall>i<length (subs st). cue_start (subs st ! i)
             = (if i = 0 then t0 else cue_end (subs st ! (i - 1)))"
    and "start_time st = (if subs st = [] then t0 else cue_end (last (subs st)))"
    and "srt_loop cs st ps = Inr st'"
  shows "(\<forall>i<length (subs st'). cue_start (subs st' ! i)
             = (if i = 0 then t0 else cue_end (subs st' ! (i - 1)))) \<and>
         start_time st' = (if subs st' = [] then t0 else cue_end (last (subs st')))"
  using assms
proof (induction ps arbitrary: st)
  case Nil
  then show ?case by simp
next
  case (Cons p ps)
  from Cons.prems(3) obtain st1 where
    s1: "srt_segment_step cs st p = Inr st1" and l: "srt_loop cs st1 ps = Inr st'"
    by (cases "srt_segment_step cs st p") simp_all
  from srt_segment_step_linked [OF Cons.prems(1,2) s1]
  have a: "\<forall>i<length (subs st1). cue_start (subs st1 ! i)
             = (if i = 0 then t0 else cue_end (subs st1 ! (i - 1)))"
    and b: "start_time st1 = (if subs st1 = [] then t0 else cue_end (last (subs st1)))"
    by blast+
  from Cons.IH [OF a b l] show ?case .
qed

lemma srt_segment_step_total:
  assumes "0 < cs"
  shows "\<exists>cues. srt_segment_step cs st (segment, d) =
            Inr \<lparr>start_time = start_time st + d,
                 next_index = next_index st + length cues,
                 subs = subs st @ cues\<rparr> \<and>
          cues \<noteq> [] \<and> (0 < d \<longrightarrow> (\<forall>c\<in>set cues. cue_start c < cue_end c))"
proof (cases "cs < int (length (split_ws segment))")
  case True
  from srt_segment_step_chunks [OF assms True, of st d] obtain cues where
    r: "srt_segment_step cs st (segment, d) =
            Inr \<lparr>start_time = start_time st + d,
                 next_index = next_index st + length cues,
                 subs = subs st @ cues\<rparr>" and
    cc: "concat (map (\<lambda>c. split_ws (cue_text c)) cues) = split_ws segment" and
    le: "\<forall>c\<in>set cues. 0 < length (split_ws (cue_text c))
                        \<and> length (split_ws (cue_text c)) \<le> nat cs" and
    pr: "\<forall>c\<in>set cues. cue_end c = cue_start c
              + d * (real (length (split_ws (cue_text c))) / real (length (split_ws segment)))"
    by blast
  have W: "0 < length (split_ws segment)" using assms True by linarith
  then have ne: "cues \<noteq> []" using cc by auto
  have pos: "0 < d \<longrightarrow> (\<forall>c\<in>set cues. cue_start c < cue_end c)"
  proof (intro impI ballI)
    fix c assume d: "0 < d" and c: "c \<in> set cues"
    from le c have "0 < real (length (split_ws (cue_text c)))" by simp
    with W d have "0 < d * (real (length (split_ws (cue_text c))) / real (length (split_ws segment)))"
      by simp
    with pr c show "cue_start c < cue_end c" by simp
  qed
  from r ne pos show ?thesis by blast
next
  case False
  let ?c = "\<lparr>cue_index = next_index st, cue_start = start_time st,
             cue_end = start_time st + d, cue_text = segment\<rparr>"
  from False have "srt_segment_step cs st (segment, d) =
            Inr \<lparr>start_time = start_time st + d,
                 next_index = next_index st + length [?c],
                 subs = subs st @ [?c]\<rparr>"
    by (simp add: srt_segment_step_def Let_def)
  then show ?thesis by (intro exI [of _ "[?c]"]) simp
qed

lemma srt_loop_total:
  assumes "0 < cs"
  shows "\<exists>cues. srt_loop cs st ps =
            Inr \<lparr>start_time = start_time st + sum_list (map snd ps),
                 next_index = next_index st + length cues,
                 subs = subs st @ cues\<rparr> \<and>
          (ps \<noteq> [] \<longrightarrow> cues \<noteq> []) \<and>
          ((\<forall>p\<in>set ps. 0 < snd p) \<longrightarrow> (\<forall>c\<in>set cues. cue_start c < cue_end c))"
proof (induction ps arbitrary: st)
  case Nil
  show ?case by (intro exI [of _ "[]"]) simp
next
  case (Cons p ps)
  obtain segment d where p: "p = (segment, d)" by (cases p)
  from srt_segment_step_total [OF assms, of st segment d] obtain cues1 where
    r1: "srt_segment_step cs st (segment, d) =
            Inr \<lparr>start_time = start_time st + d,
                 next_index = next_index st + length cues1,
                 subs = subs st @ cues1\<rparr>" and
    ne1: "cues1 \<noteq> []" and
    pos1: "0 < d \<longrightarrow> (\<forall>c\<in>set cues1. cue_start c < cue_end c)"
    by blast
  let ?st1 = "\<lparr>start_time = start_time st + d,
                 next_index = next_index st + length cues1,
                 subs = subs st @ cues1\<rparr>"
  from Cons.IH [of ?st1] obtain cues2 where
    r2: "srt_loop cs ?st1 ps =
            Inr \<lparr>start_time = start_time ?st1 + sum_list (map snd ps),
                 next_index = next_index ?st1 + length cues2,
                 subs = subs ?st1 @ cues2\<rparr>" and
    pos2: "(\<forall>p\<in>set ps. 0 < snd p) \<longrightarrow> (\<forall>c\<in>set cues2. cue_start c < cue_end c)"
    by blast
  have r: "srt_loop cs st (p # ps) =
            Inr \<lparr>start_time = start_time st + sum_list (map snd (p # ps)),
                 next_index = next_index st + length (cues1 @ cues2),
                 subs = subs st @ (cues1 @ cues2)\<rparr>"
    using r1 r2 p by simp
  have ne: "p # ps \<noteq> [] \<longrightarrow> cues1 @ cues2 \<noteq> []" using ne1 by simp
  have pos: "(\<forall>q\<in>set (p # ps). 0 < snd q)
      \<longrightarrow> (\<forall>c\<in>set (cues1 @ cues2). cue_start c < cue_end c)"
    using pos1 pos2 p by auto
  from r ne pos show ?case by blast
qed

text \<open>
  Claim C3. For a positive chunk size and as many positive durations as there are texts,
  at least one, the loop of the subtitle file ends without an error. The first cue
  starts at 5, every other cue starts where the cue before it ends, every cue ends after
  it starts, and the last cue ends at 5 plus the sum of the durations. Durations are
  real numbers here, so the sum is exact.
\<close>

theorem srt_loop_contiguous:
  assumes "0 < chunk_size" and "\<forall>d\<in>set durations. 0 < d"
    and "length texts = length durations" and "texts \<noteq> []"
  shows "\<exists>st. srt_loop chunk_size srt_init (zip texts durations) = Inr st \<and>
           subs st \<noteq> [] \<and>
           cue_start (hd (subs st)) = 5 \<and>
           (\<forall>i. Suc i < length (subs st) \<longrightarrow>
                cue_start (subs st ! Suc i) = cue_end (subs st ! i)) \<and>
           (\<forall>c\<in>set (subs st). cue_start c < cue_end c) \<and>
           cue_end (last (subs st)) = 5 + sum_list durations"
proof -
  let ?ps = "zip texts durations"
  from srt_loop_total [OF assms(1), of srt_init ?ps] obtain cues where
    r: "srt_loop chunk_size srt_init ?ps =
            Inr \<lparr>start_time = start_time srt_init + sum_list (map snd ?ps),
                 next_index = next_index srt_init + length cues,
                 subs = subs srt_init @ cues\<rparr>" and
    ne: "?ps \<noteq> [] \<longrightarrow> cues \<noteq> []" and
    pos: "(\<forall>p\<in>set ?ps. 0 < snd p) \<longrightarrow> (\<forall>c\<in>set cues. cue_start c < cue_end c)"
    by blast
  let ?st = "\<lparr>start_time = 5 + sum_list durations, next_index = 1 + length cues,
              subs = cues\<rparr>"
  have snd: "map snd ?ps = durations" using assms(3) by simp
  have r': "srt_loop chunk_size srt_init ?ps = Inr ?st"
    using r snd by (simp add: srt_init_def)
  have "durations \<noteq> []" using assms(3,4) by auto
  with assms(4) have "?ps \<noteq> []" by (cases texts; cases durations) simp_all
  with ne have cne: "cues \<noteq> []" by simp
  have "\<forall>p\<in>set ?ps. 0 < snd p"
    using assms(2) by (auto dest: set_zip_rightD)
  with pos have lt: "\<forall>c\<in>set cues. cue_start c < cue_end c" by simp
  have i1: "\<forall>i<length (subs srt_init). cue_start (subs srt_init ! i)
             = (if i = 0 then 5 else cue_end (subs srt_init ! (i - 1)))"
    by (simp add: srt_init_def)
  have i2: "start_time srt_init = (if subs srt_init = [] then 5 else cue_end (last (subs srt_init)))"
    by (simp add: srt_init_def)
  from srt_loop_linked [OF i1 i2 r']
  have a: "\<forall>i<length cues. cue_start (cues ! i) = (if i = 0 then 5 else cue_end (cues ! (i - 1)))"
    and b: "5 + sum_list durations = (if cues = [] then 5 else cue_end (last cues))"
    by (simp_all cong: if_cong)
  have hd: "cue_start (hd cues) = 5"
    using a cne by (simp add: hd_conv_nth)
  have link: "\<forall>i. Suc i < length cues \<longrightarrow> cue_start (cues ! Suc i) = cue_end (cues ! i)"
    using a by auto
  have fin: "cue_end (last cues) = 5 + sum_list durations"
    using b cne by simp
  show ?thesis
  proof (intro exI conjI)
    show "srt_loop chunk_size srt_init ?ps = Inr ?st" by (rule r')
    show "subs ?st \<noteq> []" using cne by simp
    show "cue_start (hd (subs ?st)) = 5" using hd by simp
    show "\<forall>i. Suc i < length (subs ?st) \<longrightarrow>
                cue_start (subs ?st ! Suc i) = cue_end (subs ?st ! i)" using link by simp
    show "\<forall>c\<in>set (subs ?st). cue_start c < cue_end c" using lt by simp
    show "cue_end (last (subs ?st)) = 5 + sum_list durations" using fin by simp
  qed
qed

text \<open>
  The theorem at a text of 25 words that lasts 10 seconds followed by a text of two
  words that lasts 2 seconds: the last cue ends at 17.
\<close>

theorem srt_loop_contiguous_witness:
  "\<exists>st. srt_loop 10 srt_init
          (zip [''a b c d e f g h i j k l m n o p q r s t u v w x y'', ''hello world'']
               [10, 2]) = Inr st \<and>
        cue_start (hd (subs st)) = 5 \<and> cue_end (last (subs st)) = 17"
  using srt_loop_contiguous
    [where chunk_size = 10
       and texts = "[''a b c d e f g h i j k l m n o p q r s t u v w x y'', ''hello world'']"
       and durations = "[10, 2]"]
  by auto

section \<open>Texts without a duration\<close>

lemma zip_take_min:
  "zip xs ys = zip (take (min (length xs) (length ys)) xs) (take (min (length xs) (length ys)) ys)"
  by (simp add: take_zip [symmetric])

lemma srt_loop_Inl: "srt_loop cs st ps = Inl e \<Longrightarrow> e = ValueError \<and> cs = 0"
proof (induction ps arbitrary: st)
  case Nil
  then show ?case by simp
next
  case (Cons p ps)
  show ?case
  proof (cases "srt_segment_step cs st p")
    case (Inl e')
    with Cons.prems have "e' = e" by simp
    with Inl show ?thesis
      by (auto simp: srt_segment_step_def py_range_def Let_def split: if_splits)
  next
    case (Inr st1)
    with Cons.prems have "srt_loop cs st1 ps = Inl e" by simp
    then show ?thesis by (rule Cons.IH)
  qed
qed

text \<open>
  Claim C4, as the code has it. Texts and durations are paired by \<^verbatim>\<open>zip\<close>, which stops
  at the end of the shorter sequence: the loop of the subtitle file and the captions of
  the video both give what they give on the two sequences cut to the length of the
  shorter one, and the items beyond it are not read. A difference in length is no
  error: with a chunk size other than zero the loop ends without one, and the one error
  it can end with is the \<^verbatim>\<open>ValueError\<close> of a zero chunk size.
\<close>

theorem srt_loop_truncates:
  "srt_loop chunk_size srt_init (zip texts durations)
     = srt_loop chunk_size srt_init
         (zip (take (min (length texts) (length durations)) texts)
              (take (min (length texts) (length durations)) durations)) \<and>
   video_captions texts durations
     = video_captions (take (min (length texts) (length durations)) texts)
         (take (min (length texts) (length durations)) durations) \<and>
   (chunk_size \<noteq> 0 \<longrightarrow>
      (\<exists>st. srt_loop chunk_size srt_init (zip texts durations) = Inr st)) \<and>
   (\<forall>e. srt_loop chunk_size srt_init (zip texts durations) = Inl e
        \<longrightarrow> e = ValueError \<and> chunk_size = 0)"
proof (intro conjI impI allI)
  show "srt_loop chunk_size srt_init (zip texts durations)
     = srt_loop chunk_size srt_init
         (zip (take (min (length texts) (length durations)) texts)
              (take (min (length texts) (length durations)) durations))"
    using zip_take_min [of texts durations] by simp
  show "video_captions texts durations
     = video_captions (take (min (length texts) (length durations)) texts)
         (take (min (length texts) (length durations)) durations)"
    unfolding video_captions_def using zip_take_min [of texts durations] by simp
next
  assume "chunk_size \<noteq> 0"
  then show "\<exists>st. srt_loop chunk_size srt_init (zip texts durations) = Inr st"
    by (rule srt_loop_ok)
next
  fix e assume "srt_loop chunk_size srt_init (zip texts durations) = Inl e"
  then show "e = ValueError" "chunk_size = 0"
    using srt_loop_Inl by blast+
qed

text \<open>
  The theorem at two texts and one duration, for the chunk sizes ten and zero.
\<close>

theorem srt_loop_truncates_witness:
  "srt_loop 10 srt_init (zip [''hello world'', ''good bye''] [2])
     = srt_loop 10 srt_init (zip [''hello world''] [2]) \<and>
   (\<exists>st. srt_loop 10 srt_init (zip [''hello world'', ''good bye''] [2]) = Inr st) \<and>
   srt_loop 0 srt_init (zip [''hello world'', ''good bye''] [2]) = Inl ValueError"
  using srt_loop_truncates
    [where chunk_size = 10 and texts = "[''hello world'', ''good bye'']" and durations = "[2]"]
    srt_loop_truncates
    [where chunk_size = 0 and texts = "[''hello world'', ''good bye'']" and durations = "[2]"]
  by (simp add: srt_segment_step_def split_ws_def is_space_def py_range_def Let_def)

text \<open>
  Claim C4 as stated fails: with two texts and one duration the loop ends without an
  error and gives the cue of the first text, the captions of the video are the caption
  of the first text, and \<^verbatim>\<open>create_complete_srt\<close> on a script of two texts beside one
  audio file returns \<^verbatim>\<open>True\<close> having saved that one cue.
\<close>

theorem srt_loop_mismatch_counterexample:
  "length [''hello world'', ''good bye''] \<noteq> length [2 :: real] \<and>
   srt_loop 10 srt_init (zip [''hello world'', ''good bye''] [2])
     = Inr \<lparr>start_time = 7, next_index = 2,
            subs = [\<lparr>cue_index = 1, cue_start = 5, cue_end = 7, cue_text = ''hello world''\<rparr>]\<rparr> \<and>
   video_captions [''hello world'', ''good bye''] [2]
     = [\<lparr>cap_text = ''hello world'', cap_start = 5, cap_duration = 2\<rparr>] \<and>
   create_complete_srt
     \<lparr>image_folder = None, audio_folder = IsDir [regular ''segment_0.mp3''],
      script_path = Script \<lparr>topic = Some ''X'',
        audio_script = Some [\<lparr>narration_text = Some ''hello world''\<rparr>,
                             \<lparr>narration_text = Some ''good bye''\<rparr>],
        visual_script = None\<rparr>,
      font_is_file = True, intro_image_is_file = True, video_parent_mkdir = True,
      srt_parent_mkdir = True, audio_duration = (\<lambda>f. Some 2), image_loads = (\<lambda>i. True),
      intro_clip_ok = (\<lambda>t. True), text_clip_ok = (\<lambda>t. True),
      write_videofile_ok = True, srt_save_ok = True\<rparr> 10
     = Inr \<lparr>returned = True,
            saved = Some [\<lparr>cue_index = 1, cue_start = 5, cue_end = 7,
                            cue_text = ''hello world''\<rparr>]\<rparr>"
  by (simp add: srt_init_def srt_segment_step_def split_ws_def is_space_def Let_def
      video_captions_def video_segment_step_def video_chunk_size_def caption_init_def
      create_complete_srt_def srt_try_def json_extract_def extract_audio_from_json_def
      path_simps)

section \<open>Captions of the video and cues of the subtitle file\<close>

lemma get_files_exts: "set exts = set exts' \<Longrightarrow> get_files folder exts = get_files folder exts'"
  by (cases folder) (simp_all add: get_files_def)

lemma audio_clips_Inr:
  "audio_clips probe fs = Inr ds \<Longrightarrow>
   length ds = length fs \<and> (\<forall>i<length fs. probe (fs ! i) = Some (ds ! i))"
proof (induction fs arbitrary: ds)
  case Nil
  then show ?case by simp
next
  case (Cons f fs)
  from Cons.prems obtain d where d: "probe f = Some d"
    by (cases "probe f") simp_all
  from Cons.prems d obtain ds' where ds': "audio_clips probe fs = Inr ds'"
    by (cases "audio_clips probe fs") simp_all
  from Cons.prems d ds' have e: "ds = d # ds'" by simp
  from Cons.IH [OF ds'] have l: "length ds' = length fs"
    and n: "\<forall>i<length fs. probe (fs ! i) = Some (ds' ! i)" by simp_all
  have "\<forall>i<length (f # fs). probe ((f # fs) ! i) = Some (ds ! i)"
  proof (intro allI impI)
    fix i assume "i < length (f # fs)"
    then show "probe ((f # fs) ! i) = Some (ds ! i)"
      using d n e by (cases i) simp_all
  qed
  with l e show ?case by simp
qed

lemma zip_take_right: "zip xs (take m ys) = take m (zip xs ys)"
proof (induction xs arbitrary: m ys)
  case Nil
  show ?case by simp
next
  case (Cons x xs)
  show ?case
  proof (cases ys)
    case Nil
    then show ?thesis by simp
  next
    case (Cons y ys')
    with Cons.IH show ?thesis by (cases m) simp_all
  qed
qed

lemma chunk_step_match:
  assumes "Start_duration vst = start_time st"
    and "map (\<lambda>c. (cap_text c, cap_start c, cap_start c + cap_duration c)) (subtitle_clips vst)
           = map (\<lambda>c. (cue_text c, cue_start c, cue_end c)) (subs st)"
  shows "Start_duration (video_chunk_step ws d vst k)
           = start_time (srt_chunk_step ws (int video_chunk_size) d st k) \<and>
         map (\<lambda>c. (cap_text c, cap_start c, cap_start c + cap_duration c))
             (subtitle_clips (video_chunk_step ws d vst k))
           = map (\<lambda>c. (cue_text c, cue_start c, cue_end c))
               (subs (srt_chunk_step ws (int video_chunk_size) d st k))"
  using assms by (simp add: video_chunk_step_def srt_chunk_step_def Let_def slice_min)

lemma chunks_match:
  assumes "Start_duration vst = start_time st"
    and "map (\<lambda>c. (cap_text c, cap_start c, cap_start c + cap_duration c)) (subtitle_clips vst)
           = map (\<lambda>c. (cue_text c, cue_start c, cue_end c)) (subs st)"
  shows "Start_duration (foldl (video_chunk_step ws d) vst starts)
           = start_time (foldl (srt_chunk_step ws (int video_chunk_size) d) st starts) \<and>
         map (\<lambda>c. (cap_text c, cap_start c, cap_start c + cap_duration c))
             (subtitle_clips (foldl (video_chunk_step ws d) vst starts))
           = map (\<lambda>c. (cue_text c, cue_start c, cue_end c))
               (subs (foldl (srt_chunk_step ws (int video_chunk_size) d) st starts))"
  using assms
proof (induction starts arbitrary: st vst)
  case Nil
  then show ?case by simp
next
  case (Cons k starts)
  from chunk_step_match [OF Cons.prems, of ws d k]
  have a: "Start_duration (video_chunk_step ws d vst k)
           = start_time (srt_chunk_step ws (int video_chunk_size) d st k)"
    and b: "map (\<lambda>c. (cap_text c, cap_start c, cap_start c + cap_duration c))
             (subtitle_clips (video_chunk_step ws d vst k))
           = map (\<lambda>c. (cue_text c, cue_start c, cue_end c))
               (subs (srt_chunk_step ws (int video_chunk_size) d st k))"
    by blast+
  from Cons.IH [OF a b] show ?case by simp
qed

lemma segment_match:
  assumes "Start_duration vst = start_time st"
    and "map (\<lambda>c. (cap_text c, cap_start c, cap_start c + cap_duration c)) (subtitle_clips vst)
           = map (\<lambda>c. (cue_text c, cue_start c, cue_end c)) (subs st)"
  shows "\<exists>st'. srt_segment_step (int video_chunk_size) st p = Inr st' \<and>
           Start_duration (video_segment_step vst p) = start_time st' \<and>
           map (\<lambda>c. (cap_text c, cap_start c, cap_start c + cap_duration c))
               (subtitle_clips (video_segment_step vst p))
             = map (\<lambda>c. (cue_text c, cue_start c, cue_end c)) (subs st')"
proof (cases "video_chunk_size < length (split_ws (fst p))")
  case True
  let ?ws = "split_ws (fst p)"
  let ?starts = "range_step (length ?ws) video_chunk_size"
  have "py_range (length ?ws) (int video_chunk_size) = Inr ?starts"
    by (simp add: py_range_def video_chunk_size_def)
  with True have s: "srt_segment_step (int video_chunk_size) st p
      = Inr (foldl (srt_chunk_step ?ws (int video_chunk_size) (snd p)) st ?starts)"
    by (simp add: srt_segment_step_def Let_def)
  from True have v: "video_segment_step vst p = foldl (video_chunk_step ?ws (snd p)) vst ?starts"
    by (simp add: video_segment_step_def Let_def)
  from chunks_match [OF assms, of ?ws "snd p" ?starts] show ?thesis
    unfolding s v by simp
next
  case False
  then show ?thesis
    using assms by (simp add: srt_segment_step_def video_segment_step_def Let_def)
qed

lemma loop_match:
  assumes "Start_duration vst = start_time st"
    and "map (\<lambda>c. (cap_text c, cap_start c, cap_start c + cap_duration c)) (subtitle_clips vst)
           = map (\<lambda>c. (cue_text c, cue_start c, cue_end c)) (subs st)"
  shows "\<exists>st'. srt_loop (int video_chunk_size) st ps = Inr st' \<and>
           map (\<lambda>c. (cap_text c, cap_start c, cap_start c + cap_duration c))
               (subtitle_clips (foldl video_segment_step vst ps))
             = map (\<lambda>c. (cue_text c, cue_start c, cue_end c)) (subs st')"
  using assms
proof (induction ps arbitrary: st vst)
  case Nil
  then show ?case by simp
next
  case (Cons p ps)
  from segment_match [OF Cons.prems, of p] obtain st1 where
    s: "srt_segment_step (int video_chunk_size) st p = Inr st1" and
    a: "Start_duration (video_segment_step vst p) = start_time st1" and
    b: "map (\<lambda>c. (cap_text c, cap_start c, cap_start c + cap_duration c))
               (subtitle_clips (video_segment_step vst p))
             = map (\<lambda>c. (cue_text c, cue_start c, cue_end c)) (subs st1)"
    by blast
  from Cons.IH [OF a b] s show ?case by simp
qed

text \<open>
  Claim C7, as the code has it. Take a call of \<^verbatim>\<open>create_video\<close> with subtitles and a
  call of \<^verbatim>\<open>create_complete_srt\<close> with chunk size ten on the same script and folders,
  both successful. The video takes its durations from the audio files it has paired
  with an image. When the images are at least as many as the pairs of a text and an
  audio file, the captions of the video and the cues of the subtitle file have the same
  texts, the same starts and the same ends.
\<close>

theorem captions_match_srt:
  assumes "create_video w True = Inr v"
    and "create_complete_srt w 10 = Inr r" and "saved r = Some cues"
    and "get_files (audio_folder w) [''.mp3'', ''.wav''] = Inr audio_files"
    and "choose_images w audio_files = Inr images"
    and "min (length (json_extract (script_path w))) (length audio_files) \<le> length images"
  shows "map (\<lambda>c. (cap_text c, cap_start c, cap_start c + cap_duration c)) (captions v)
           = map (\<lambda>c. (cue_text c, cue_start c, cue_end c)) cues"
proof -
  let ?script = "json_extract (script_path w)"
  from create_video_Inr [OF assms(1)] assms(4,5) obtain clips ds where
    c: "clip_loop w ([TitleCard (extract_topic_from_json (script_path w)) 5], [])
             (zip images audio_files) = Inr (clips, ds)" and
    v: "captions v = video_captions ?script ds"
    by auto
  from clip_loop_Inr [OF c] have
    lds: "length ds = min (length images) (length audio_files)" and
    nds: "\<forall>i<length ds. audio_duration w (audio_files ! i) = Some (ds ! i)"
    by auto
  have f2: "get_files (audio_folder w) [''.wav'', ''.mp3''] = Inr audio_files"
  proof -
    have "set [''.wav'', ''.mp3''] = set [''.mp3'', ''.wav'']" by auto
    from get_files_exts [OF this] assms(4) show ?thesis by simp
  qed
  from assms(2,3) have t: "srt_try w 10 = Inr cues"
    by (cases "srt_try w 10") (auto simp: create_complete_srt_def split: if_splits)
  from t f2 obtain durs where du: "audio_clips (audio_duration w) audio_files = Inr durs"
    by (cases "audio_clips (audio_duration w) audio_files") (simp_all add: srt_try_def)
  from t f2 du obtain st where
    l: "srt_loop 10 srt_init (zip ?script durs) = Inr st" and cu: "cues = subs st"
    by (cases "srt_loop 10 srt_init (zip ?script durs)")
       (auto simp: srt_try_def split: if_splits)
  from audio_clips_Inr [OF du] have
    ldu: "length durs = length audio_files" and
    ndu: "\<forall>i<length audio_files. audio_duration w (audio_files ! i) = Some (durs ! i)"
    by simp_all
  have "ds = take (length ds) durs"
  proof (intro nth_equalityI)
    show "length ds = length (take (length ds) durs)" using lds ldu by simp
    fix i assume i: "i < length ds"
    then have "i < length audio_files" using lds by simp
    with nds ndu i have "Some (ds ! i) = Some (durs ! i)" by metis
    with i show "ds ! i = take (length ds) durs ! i" by simp
  qed
  then have "zip ?script ds = take (length ds) (zip ?script durs)"
    using zip_take_right [of ?script "length ds" durs] by simp
  also have "\<dots> = zip ?script durs"
    using assms(6) lds ldu by simp
  finally have z: "zip ?script ds = zip ?script durs" .
  have i1: "Start_duration caption_init = start_time srt_init"
    by (simp add: caption_init_def srt_init_def)
  have i2: "map (\<lambda>c. (cap_text c, cap_start c, cap_start c + cap_duration c))
               (subtitle_clips caption_init)
           = map (\<lambda>c. (cue_text c, cue_start c, cue_end c)) (subs srt_init)"
    by (simp add: caption_init_def srt_init_def)
  have ten: "int video_chunk_size = 10" by (simp add: video_chunk_size_def)
  from loop_match [OF i1 i2, of "zip ?script durs"] l
  have "map (\<lambda>c. (cap_text c, cap_start c, cap_start c + cap_duration c))
               (subtitle_clips (foldl video_segment_step caption_init (zip ?script durs)))
             = map (\<lambda>c. (cue_text c, cue_start c, cue_end c)) (subs st)"
    unfolding ten by simp
  then show ?thesis
    unfolding v video_captions_def z cu .
qed

text \<open>
  The theorem at two images, two audio files of 3 and 4 seconds and two texts.
\<close>

theorem captions_match_srt_witness:
  "create_video
     \<lparr>image_folder = Some (IsDir [regular ''scene_00-00.jpg'', regular ''scene_00-05.jpg'']),
        audio_folder = IsDir [regular ''segment_0.mp3'', regular ''segment_1.mp3''],
        script_path = Script \<lparr>topic = Some ''X'',
          audio_script = Some [\<lparr>narration_text = Some ''hello world''\<rparr>,
                               \<lparr>narration_text = Some ''good bye''\<rparr>],
          visual_script = None\<rparr>,
        font_is_file = True, intro_image_is_file = True, video_parent_mkdir = True,
        srt_parent_mkdir = True,
        audio_duration = (\<lambda>f. if f = ''segment_0.mp3'' then Some 3 else Some 4),
        image_loads = (\<lambda>i. True),
        intro_clip_ok = (\<lambda>t. True), text_clip_ok = (\<lambda>t. True),
        write_videofile_ok = True, srt_save_ok = True\<rparr> True
   = Inr
     \<lparr>timeline =
          [\<lparr>clip_start = 0, clip_end = 5, shown = TitleCard ''X'' 5\<rparr>,
           \<lparr>clip_start = 5, clip_end = 8,
            shown = Still (FolderImage ''scene_00-00.jpg'') ''segment_0.mp3'' 3\<rparr>,
           \<lparr>clip_start = 8, clip_end = 12,
            shown = Still (FolderImage ''scene_00-05.jpg'') ''segment_1.mp3'' 4\<rparr>,
           \<lparr>clip_start = 12, clip_end = 17, shown = TitleCard ''MADE BY TEAM FRAGMENT'' 5\<rparr>],
        captions = [\<lparr>cap_text = ''hello world'', cap_start = 5, cap_duration = 3\<rparr>,
                    \<lparr>cap_text = ''good bye'', cap_start = 8, cap_duration = 4\<rparr>]\<rparr> \<and>
   create_complete_srt
     \<lparr>image_folder = Some (IsDir [regular ''scene_00-00.jpg'', regular ''scene_00-05.jpg'']),
        audio_folder = IsDir [regular ''segment_0.mp3'', regular ''segment_1.mp3''],
        script_path = Script \<lparr>topic = Some ''X'',
          audio_script = Some [\<lparr>narration_text = Some ''hello world''\<rparr>,
                               \<lparr>narration_text = Some ''good bye''\<rparr>],
          visual_script = None\<rparr>,
        font_is_file = True, intro_image_is_file = True, video_parent_mkdir = True,
        srt_parent_mkdir = True,
        audio_duration = (\<lambda>f. if f = ''segment_0.mp3'' then Some 3 else Some 4),
        image_loads = (\<lambda>i. True),
        intro_clip_ok = (\<lambda>t. True), text_clip_ok = (\<lambda>t. True),
        write_videofile_ok = True, srt_save_ok = True\<rparr> 10
   = Inr
     \<lparr>returned = True,
        saved = Some
        [\<lparr>cue_index = 1, cue_start = 5, cue_end = 8, cue_text = ''hello world''\<rparr>,
         \<lparr>cue_index = 2, cue_start = 8, cue_end = 12, cue_text = ''good bye''\<rparr>]\<rparr> \<and>
   map (\<lambda>c. (cap_text c, cap_start c, cap_start c + cap_duration c))
     (captions
     \<lparr>timeline =
          [\<lparr>clip_start = 0, clip_end = 5, shown = TitleCard ''X'' 5\<rparr>,
           \<lparr>clip_start = 5, clip_end = 8,
            shown = Still (FolderImage ''scene_00-00.jpg'') ''segment_0.mp3'' 3\<rparr>,
           \<lparr>clip_start = 8, clip_end = 12,
            shown = Still (FolderImage ''scene_00-05.jpg'') ''segment_1.mp3'' 4\<rparr>,
           \<lparr>clip_start = 12, clip_end = 17, shown = TitleCard ''MADE BY TEAM FRAGMENT'' 5\<rparr>],
        captions = [\<lparr>cap_text = ''hello world'', cap_start = 5, cap_duration = 3\<rparr>,
                    \<lparr>cap_text = ''good bye'', cap_start = 8, cap_duration = 4\<rparr>]\<rparr>)
   = map (\<lambda>c. (cue_text c, cue_start c, cue_end c))
        [\<lparr>cue_index = 1, cue_start = 5, cue_end = 8, cue_text = ''hello world''\<rparr>,
         \<lparr>cue_index = 2, cue_start = 8, cue_end = 12, cue_text = ''good bye''\<rparr>]"
proof -
  have v: "create_video
     \<lparr>image_folder = Some (IsDir [regular ''scene_00-00.jpg'', regular ''scene_00-05.jpg'']),
        audio_folder = IsDir [regular ''segment_0.mp3'', regular ''segment_1.mp3''],
        script_path = Script \<lparr>topic = Some ''X'',
          audio_script = Some [\<lparr>narration_text = Some ''hello world''\<rparr>,
                               \<lparr>narration_text = Some ''good bye''\<rparr>],
          visual_script = None\<rparr>,
        font_is_file = True, intro_image_is_file = True, video_parent_mkdir = True,
        srt_parent_mkdir = True,
        audio_duration = (\<lambda>f. if f = ''segment_0.mp3'' then Some 3 else Some 4),
        image_loads = (\<lambda>i. True),
        intro_clip_ok = (\<lambda>t. True), text_clip_ok = (\<lambda>t. True),
        write_videofile_ok = True, srt_save_ok = True\<rparr> True
   = Inr
     \<lparr>timeline =
          [\<lparr>clip_start = 0, clip_end = 5, shown = TitleCard ''X'' 5\<rparr>,
           \<lparr>clip_start = 5, clip_end = 8,
            shown = Still (FolderImage ''scene_00-00.jpg'') ''segment_0.mp3'' 3\<rparr>,
           \<lparr>clip_start = 8, clip_end = 12,
            shown = Still (FolderImage ''scene_00-05.jpg'') ''segment_1.mp3'' 4\<rparr>,
           \<lparr>clip_start = 12, clip_end = 17, shown = TitleCard ''MADE BY TEAM FRAGMENT'' 5\<rparr>],
        captions = [\<lparr>cap_text = ''hello world'', cap_start = 5, cap_duration = 3\<rparr>,
                    \<lparr>cap_text = ''good bye'', cap_start = 8, cap_duration = 4\<rparr>]\<rparr>"
    by (simp add: create_video_def choose_images_def create_intro_clip_def render_captions_def
        extract_topic_from_json_def json_extract_def extract_audio_from_json_def
        concatenate_videoclips_def video_captions_def video_segment_step_def
        video_chunk_size_def caption_init_def split_ws_def is_space_def path_simps)
  have r: "create_complete_srt
     \<lparr>image_folder = Some (IsDir [regular ''scene_00-00.jpg'', regular ''scene_00-05.jpg'']),
        audio_folder = IsDir [regular ''segment_0.mp3'', regular ''segment_1.mp3''],
        script_path = Script \<lparr>topic = Some ''X'',
          audio_script = Some [\<lparr>narration_text = Some ''hello world''\<rparr>,
                               \<lparr>narration_text = Some ''good bye''\<rparr>],
          visual_script = None\<rparr>,
        font_is_file = True, intro_image_is_file = True, video_parent_mkdir = True,
        srt_parent_mkdir = True,
        audio_duration = (\<lambda>f. if f = ''segment_0.mp3'' then Some 3 else Some 4),
        image_loads = (\<lambda>i. True),
        intro_clip_ok = (\<lambda>t. True), text_clip_ok = (\<lambda>t. True),
        write_videofile_ok = True, srt_save_ok = True\<rparr> 10
   = Inr
     \<lparr>returned = True,
        saved = Some
        [\<lparr>cue_index = 1, cue_start = 5, cue_end = 8, cue_text = ''hello world''\<rparr>,
         \<lparr>cue_index = 2, cue_start = 8, cue_end = 12, cue_text = ''good bye''\<rparr>]\<rparr>"
    by (simp add: create_complete_srt_def srt_try_def srt_init_def srt_segment_step_def
        json_extract_def extract_audio_from_json_def split_ws_def is_space_def path_simps)
  from captions_match_srt [OF v r,
      where cues = "[\<lparr>cue_index = 1, cue_start = 5, cue_end = 8, cue_text = ''hello world''\<rparr>,
         \<lparr>cue_index = 2, cue_start = 8, cue_end = 12, cue_text = ''good bye''\<rparr>]"
        and audio_files = "[''segment_0.mp3'', ''segment_1.mp3'']"
        and images = "[FolderImage ''scene_00-00.jpg'', FolderImage ''scene_00-05.jpg'']"]
    v r show ?thesis
    by (simp add: choose_images_def json_extract_def extract_audio_from_json_def path_simps)
qed

text \<open>
  Claim C7 as stated fails: with the same two texts and two audio files and one image
  only, the video has one caption and the subtitle file has two cues.
\<close>

theorem captions_match_srt_counterexample:
  "create_video
     \<lparr>image_folder = Some (IsDir [regular ''scene_00-00.jpg'']),
        audio_folder = IsDir [regular ''segment_0.mp3'', regular ''segment_1.mp3''],
        script_path = Script \<lparr>topic = Some ''X'',
          audio_script = Some [\<lparr>narration_text = Some ''hello world''\<rparr>,
                               \<lparr>narration_text = Some ''good bye''\<rparr>],
          visual_script = None\<rparr>,
        font_is_file = True, intro_image_is_file = True, video_parent_mkdir = True,
        srt_parent_mkdir = True,
        audio_duration = (\<lambda>f. if f = ''segment_0.mp3'' then Some 3 else Some 4),
        image_loads = (\<lambda>i. True),
        intro_clip_ok = (\<lambda>t. True), text_clip_ok = (\<lambda>t. True),
        write_videofile_ok = True, srt_save_ok = True\<rparr> True
   = Inr
     \<lparr>timeline =
          [\<lparr>clip_start = 0, clip_end = 5, shown = TitleCard ''X'' 5\<rparr>,
           \<lparr>clip_start = 5, clip_end = 8,
            shown = Still (FolderImage ''scene_00-00.jpg'') ''segment_0.mp3'' 3\<rparr>,
           \<lparr>clip_start = 8, clip_end = 13, shown = TitleCard ''MADE BY TEAM FRAGMENT'' 5\<rparr>],
        captions = [\<lparr>cap_text = ''hello world'', cap_start = 5, cap_duration = 3\<rparr>]\<rparr> \<and>
   create_complete_srt
     \<lparr>image_folder = Some (IsDir [regular ''scene_00-00.jpg'']),
        audio_folder = IsDir [regular ''segment_0.mp3'', regular ''segment_1.mp3''],
        script_path = Script \<lparr>topic = Some ''X'',
          audio_script = Some [\<lparr>narration_text = Some ''hello world''\<rparr>,
                               \<lparr>narration_text = Some ''good bye''\<rparr>],
          visual_script = None\<rparr>,
        font_is_file = True, intro_image_is_file = True, video_parent_mkdir = True,
        srt_parent_mkdir = True,
        audio_duration = (\<lambda>f. if f = ''segment_0.mp3'' then Some 3 else Some 4),
        image_loads = (\<lambda>i. True),
        intro_clip_ok = (\<lambda>t. True), text_clip_ok = (\<lambda>t. True),
        write_videofile_ok = True, srt_save_ok = True\<rparr> 10
   = Inr
     \<lparr>returned = True,
        saved = Some
        [\<lparr>cue_index = 1, cue_start = 5, cue_end = 8, cue_text = ''hello world''\<rparr>,
         \<lparr>cue_index = 2, cue_start = 8, cue_end = 12, cue_text = ''good bye''\<rparr>]\<rparr>"
proof
  show "create_video
     \<lparr>image_folder = Some (IsDir [regular ''scene_00-00.jpg'']),
        audio_folder = IsDir [regular ''segment_0.mp3'', regular ''segment_1.mp3''],
        script_path = Script \<lparr>topic = Some ''X'',
          audio_script = Some [\<lparr>narration_text = Some ''hello world''\<rparr>,
                               \<lparr>narration_text = Some ''good bye''\<rparr>],
          visual_script = None\<rparr>,
        font_is_file = True, intro_image_is_file = True, video_parent_mkdir = True,
        srt_parent_mkdir = True,
        audio_duration = (\<lambda>f. if f = ''segment_0.mp3'' then Some 3 else Some 4),
        image_loads = (\<lambda>i. True),
        intro_clip_ok = (\<lambda>t. True), text_clip_ok = (\<lambda>t. True),
        write_videofile_ok = True, srt_save_ok = True\<rparr> True
   = Inr
     \<lparr>timeline =
          [\<lparr>clip_start = 0, clip_end = 5, shown = TitleCard ''X'' 5\<rparr>,
           \<lparr>clip_start = 5, clip_end = 8,
            shown = Still (FolderImage ''scene_00-00.jpg'') ''segment_0.mp3'' 3\<rparr>,
           \<lparr>clip_start = 8, clip_end = 13, shown = TitleCard ''MADE BY TEAM FRAGMENT'' 5\<rparr>],
        captions = [\<lparr>cap_text = ''hello world'', cap_start = 5, cap_duration = 3\<rparr>]\<rparr>"
    by (simp add: create_video_def choose_images_def create_intro_clip_def render_captions_def
        extract_topic_from_json_def json_extract_def extract_audio_from_json_def
        concatenate_videoclips_def video_captions_def video_segment_step_def
        video_chunk_size_def caption_init_def split_ws_def is_space_def path_simps)
  show "create_complete_srt
     \<lparr>image_folder = Some (IsDir [regular ''scene_00-00.jpg'']),
        audio_folder = IsDir [regular ''segment_0.mp3'', regular ''segment_1.mp3''],
        script_path = Script \<lparr>topic = Some ''X'',
          audio_script = Some [\<lparr>narration_text = Some ''hello world''\<rparr>,
                               \<lparr>narration_text = Some ''good bye''\<rparr>],
          visual_script = None\<rparr>,
        font_is_file = True, intro_image_is_file = True, video_parent_mkdir = True,
        srt_parent_mkdir = True,
        audio_duration = (\<lambda>f. if f = ''segment_0.mp3'' then Some 3 else Some 4),
        image_loads = (\<lambda>i. True),
        intro_clip_ok = (\<lambda>t. True), text_clip_ok = (\<lambda>t. True),
        write_videofile_ok = True, srt_save_ok = True\<rparr> 10
   = Inr
     \<lparr>returned = True,
        saved = Some
        [\<lparr>cue_index = 1, cue_start = 5, cue_end = 8, cue_text = ''hello world''\<rparr>,
         \<lparr>cue_index = 2, cue_start = 8, cue_end = 12, cue_text = ''good bye''\<rparr>]\<rparr>"
    by (simp add: create_complete_srt_def srt_try_def srt_init_def srt_segment_step_def
        json_extract_def extract_audio_from_json_def split_ws_def is_space_def path_simps)
qed

end
